theory Spec2Isabelle
  imports Main "HOL-Library.Word"
begin

unbundle bit_operations_syntax

section \<open>Data model of the updater (src/updater.cpp)\<close>

text \<open>
  The updater is one C++ object (class Updater) whose members are mutated by a worker thread
  and by two commands of the user interface. The object is a record here, every member
  function a function from the object to the updated object, and every Qt signal that the
  code emits is appended to the field \<open>emitted\<close>. The mutex is not modelled: the
  member functions run one after another, and what another thread can see in between is
  the object after each of them.
\<close>

type_synonym uint32_t = "32 word"
type_synonym uint8_t = "8 word"
type_synonym gpg_error_t = "32 word"

datatype State =
    StateNone | StateInit | StateQueryDNS | StateDNSFailed | StateCheckVersion
  | StateUpToDate | StateBackInTime | StateNoUpdateInfoFound | StateDownload
  | StateDownloadFailed | StateCheckHash | StateBadHash | StateImportPubkeys
  | StatePubkeyImportFailed | StateFetchGitianSigs | StateVerifyGitianSignatures
  | StateNoGitianSigs | StateNotEnoughGitianSigs | StateBadGitianSigs | StateValidUpdate

datatype tristate_t = TriUnknown | TriTrue | TriFalse

text \<open>The Qt signals of the class, with their payloads.\<close>

datatype signal =
    stateChanged string
  | stateOutcomeChanged tristate_t
  | selectingChanged bool
  | dnsValidChanged tristate_t
  | hashValidChanged tristate_t
  | validGitianSigsChanged uint32_t
  | minValidGitianSigsChanged uint32_t
  | processedGitianSigsChanged uint32_t
  | totalGitianSigsChanged uint32_t
  | versionChanged string
  | message string
  | downloadStarted
  | downloadProgress nat int
  | downloadFinished bool
  | validUpdateReady string

record dns_query_result_t =
  records :: "string list"
  avail :: bool
  valid :: bool

record Updater =
  state :: State
  next_state :: State
  dnsValid :: tristate_t
  hashValid :: tristate_t
  validGitianSigs :: uint32_t
  minValidGitianSigs :: uint32_t
  totalGitianSigs :: uint32_t
  processedGitianSigs :: uint32_t
  software :: string
  buildtag :: string
  current_version :: string
  version :: string
  expected_hash :: string
  download_path :: string
  gpg_home :: string
  dns_query_results :: "dns_query_result_t list"
  good_dns_records :: "string list"
  imported_fingerprints :: "(string \<times> string) list"
  messages :: "string list"
  dns_query_done :: bool
  version_check_done :: bool
  download_done :: bool
  download_success :: bool
  download_handle :: bool
  gitian_pubkeys_import_done :: bool
  gitian_pubkeys_import_success :: bool
  gitian_verify_sigs_done :: bool
  gitian_verify_sigs_success :: bool
  bad_gitian_signature_found :: bool
  running :: bool
  emitted :: "signal list"

definition MIN_GITIAN_SIGS :: uint32_t where
  "MIN_GITIAN_SIGS = 2"

definition emit :: "signal \<Rightarrow> Updater \<Rightarrow> Updater" where
  "emit sg u = u\<lparr>emitted := emitted u @ [sg]\<rparr>"

subsection \<open>The state table\<close>

fun get_state_outcome :: "State \<Rightarrow> tristate_t" where
  "get_state_outcome StateNone = TriUnknown"
| "get_state_outcome StateInit = TriUnknown"
| "get_state_outcome StateQueryDNS = TriUnknown"
| "get_state_outcome StateDNSFailed = TriFalse"
| "get_state_outcome StateCheckVersion = TriUnknown"
| "get_state_outcome StateUpToDate = TriTrue"
| "get_state_outcome StateBackInTime = TriTrue"
| "get_state_outcome StateNoUpdateInfoFound = TriFalse"
| "get_state_outcome StateDownload = TriUnknown"
| "get_state_outcome StateDownloadFailed = TriFalse"
| "get_state_outcome StateCheckHash = TriUnknown"
| "get_state_outcome StateBadHash = TriFalse"
| "get_state_outcome StateImportPubkeys = TriUnknown"
| "get_state_outcome StatePubkeyImportFailed = TriFalse"
| "get_state_outcome StateFetchGitianSigs = TriUnknown"
| "get_state_outcome StateVerifyGitianSignatures = TriUnknown"
| "get_state_outcome StateNoGitianSigs = TriFalse"
| "get_state_outcome StateNotEnoughGitianSigs = TriFalse"
| "get_state_outcome StateBadGitianSigs = TriFalse"
| "get_state_outcome StateValidUpdate = TriTrue"

fun get_state_name :: "State \<Rightarrow> string" where
  "get_state_name StateNone = ''None''"
| "get_state_name StateInit = ''Initializing''"
| "get_state_name StateQueryDNS = ''Querying DNS''"
| "get_state_name StateDNSFailed = ''DNS check failed''"
| "get_state_name StateCheckVersion = ''Checking version''"
| "get_state_name StateUpToDate = ''We are up to date''"
| "get_state_name StateBackInTime = ''Only old versions found''"
| "get_state_name StateNoUpdateInfoFound = ''No update information found''"
| "get_state_name StateDownload = ''Downloading update''"
| "get_state_name StateDownloadFailed = ''Download failed''"
| "get_state_name StateCheckHash = ''Checking hash''"
| "get_state_name StateBadHash = ''Invalid hash''"
| "get_state_name StateImportPubkeys = ''Importing public keys''"
| "get_state_name StatePubkeyImportFailed = ''Failed to import public keys''"
| "get_state_name StateFetchGitianSigs = ''Fetching Gitian signatures''"
| "get_state_name StateVerifyGitianSignatures = ''Verifying Gitian signatures''"
| "get_state_name StateNoGitianSigs = ''No Gitian signatures found''"
| "get_state_name StateNotEnoughGitianSigs = ''Not enough matching Gitian signatures found''"
| "get_state_name StateBadGitianSigs = ''At least one Gitian signature was invalid''"
| "get_state_name StateValidUpdate = ''Valid update downloaded and verified''"

definition dns_urls :: "string list" where
  "dns_urls = [''updates.moneropulse.org'', ''updates.moneropulse.net'',
               ''updates.moneropulse.co'', ''updates.moneropulse.se'']"

subsection \<open>Setters and the message log\<close>

definition setDnsValid :: "tristate_t \<Rightarrow> Updater \<Rightarrow> Updater" where
  "setDnsValid t u = (let u1 = u\<lparr>dnsValid := t\<rparr> in emit (dnsValidChanged (dnsValid u1)) u1)"

definition setHashValid :: "tristate_t \<Rightarrow> Updater \<Rightarrow> Updater" where
  "setHashValid t u = (let u1 = u\<lparr>hashValid := t\<rparr> in emit (hashValidChanged (hashValid u1)) u1)"

definition setValidGitianSigs :: "uint32_t \<Rightarrow> Updater \<Rightarrow> Updater" where
  "setValidGitianSigs sigs u =
     (let u1 = u\<lparr>validGitianSigs := sigs\<rparr> in emit (validGitianSigsChanged (validGitianSigs u1)) u1)"

text \<open>The signal of this setter carries the member validGitianSigs, as the source writes it.\<close>

definition setMinValidGitianSigs :: "uint32_t \<Rightarrow> Updater \<Rightarrow> Updater" where
  "setMinValidGitianSigs sigs u =
     (let u1 = u\<lparr>minValidGitianSigs := sigs\<rparr>
      in emit (minValidGitianSigsChanged (validGitianSigs u1)) u1)"

definition setProcessedGitianSigs :: "uint32_t \<Rightarrow> Updater \<Rightarrow> Updater" where
  "setProcessedGitianSigs sigs u =
     (let u1 = u\<lparr>processedGitianSigs := sigs\<rparr>
      in emit (processedGitianSigsChanged (processedGitianSigs u1)) u1)"

definition setTotalGitianSigs :: "uint32_t \<Rightarrow> Updater \<Rightarrow> Updater" where
  "setTotalGitianSigs sigs u =
     (let u1 = u\<lparr>totalGitianSigs := sigs\<rparr>
      in emit (totalGitianSigsChanged (totalGitianSigs u1)) u1)"

definition add_message :: "string \<Rightarrow> Updater \<Rightarrow> Updater" where
  "add_message s u = emit (message s) (u\<lparr>messages := messages u @ [s]\<rparr>)"

text \<open>The object as the constructor's initialiser list leaves it (before set_state(StateInit)).\<close>

definition Updater_init :: "string \<Rightarrow> Updater" where
  "Updater_init tag =
     \<lparr> state = StateNone, next_state = StateNone,
       dnsValid = TriUnknown, hashValid = TriUnknown,
       validGitianSigs = 0, minValidGitianSigs = 0, totalGitianSigs = 0,
       processedGitianSigs = 0,
       software = ''monero'', buildtag = tag, current_version = [],
       version = [], expected_hash = [], download_path = [], gpg_home = [],
       dns_query_results = [], good_dns_records = [], imported_fingerprints = [],
       messages = [],
       dns_query_done = False, version_check_done = False,
       download_done = False, download_success = False, download_handle = False,
       gitian_pubkeys_import_done = False, gitian_pubkeys_import_success = False,
       gitian_verify_sigs_done = False, gitian_verify_sigs_success = False,
       bad_gitian_signature_found = False, running = True, emitted = [] \<rparr>"

section \<open>External collaborators\<close>

text \<open>
  The libraries that the updater calls (the DNS resolver, the HTTP client, SHA-256, the
  OpenPGP engine, boost::regex and the helpers of the monero tree) are not part of
  src/updater.cpp. Their answers are inputs of the model, collected in one record; the
  stage functions below take it as their first argument.
\<close>

record gpgme_signature =
  sig_fpr :: string
  sig_status :: gpg_error_t
  sig_summary :: "32 word"

record gpgme_import_status =
  imp_fpr :: "string option"
  imp_result :: gpg_error_t

record collab =
  get_txt_record :: "string \<Rightarrow> dns_query_result_t"
  random_engine :: nat
  vercmp :: "string \<Rightarrow> string \<Rightarrow> int"
  sha256sum :: "string \<Rightarrow> uint8_t list option"
  get_update_url :: "string \<Rightarrow> string \<Rightarrow> string \<Rightarrow> string \<Rightarrow> string"
  temp_directory_path :: string
  unique_path :: "string \<Rightarrow> string"
  http_download :: "string \<Rightarrow> string option"
  regex_search :: "string \<Rightarrow> string \<Rightarrow> string option"
  pubkeys :: "(string \<times> string) list"
  gpgme_engine_check_version :: gpg_error_t
  gpgme_new :: gpg_error_t
  gpgme_data_new_from_mem :: "string \<Rightarrow> gpg_error_t"
  gpgme_op_import :: "string \<Rightarrow> gpg_error_t"
  gpgme_op_import_result :: "string \<Rightarrow> gpgme_import_status option option"
  gpgme_get_key :: "string \<Rightarrow> gpg_error_t"
  gpgme_op_tofu_policy :: "string \<Rightarrow> gpg_error_t"
  gpgme_op_verify :: "string \<Rightarrow> string \<Rightarrow> gpg_error_t"
  gpgme_op_verify_result :: "string \<Rightarrow> string \<Rightarrow> gpgme_signature option option"

text \<open>
  Reading of the fields:
  \<^item> \<open>get_txt_record host\<close>: the records with the two DNSSEC flags the resolver sets;
  \<^item> \<open>random_engine\<close>: the number drawn from std::default_random_engine;
  \<^item> \<open>sha256sum path\<close>: the 32 bytes of the digest, \<open>None\<close> when the call returns false;
  \<^item> \<open>http_download url\<close>: tools::download followed by load_file_to_string, the contents
    of the file, \<open>None\<close> when either call fails (the code takes one branch for both);
  \<^item> \<open>regex_search expression line\<close>: boost::regex_search, the first capture group of a
    match;
  \<^item> \<open>gpgme_op_verify signature contents\<close> and the other gpgme calls: the error code
    returned (0 is success); \<open>gpgme_op_verify_result\<close> is \<open>None\<close> for a null result,
    \<open>Some None\<close> for a result without signatures, and otherwise the first signature.
\<close>

text \<open>
  Modelled from the spec: tools::dns_utils::dns_records_match, declared in
  common/dns_utils.h, which is not under src/. The spec (4.2) has it as equality of the two
  record lists as sets, ignoring the order of the elements.
\<close>

definition dns_records_match :: "string list \<Rightarrow> string list \<Rightarrow> bool" where
  "dns_records_match a b = (set a = set b)"

section \<open>DNS quorum stage\<close>

text \<open>One round of the do-while loop that logs why a host is skipped.\<close>

definition dns_log_skip :: "string list \<Rightarrow> dns_query_result_t list \<Rightarrow> Updater \<Rightarrow> nat \<Rightarrow> Updater" where
  "dns_log_skip urls results u cur_index =
     (let url = urls ! cur_index in
      if \<not> avail (results ! cur_index) then
        add_message (''DNSSEC not available for hostname: '' @ url @ '', skipping.'') u
      else if \<not> valid (results ! cur_index) then
        add_message (''DNSSEC validation failed for hostname: '' @ url @ '', skipping.'') u
      else if records (results ! cur_index) = [] then
        add_message (''No records for hostname: '' @ url @ '', skipping.'') u
      else u)"

definition record_set_ok :: "dns_query_result_t \<Rightarrow> bool" where
  "record_set_ok record_set = (avail record_set \<and> valid record_set \<and> length (records record_set) \<noteq> 0)"

definition num_valid_records :: "dns_query_result_t list \<Rightarrow> nat" where
  "num_valid_records results = length (filter record_set_ok results)"

text \<open>
  The inner loop over j = i + 1 .. size - 1 (it looks at the records of j only), and the
  outer loop over i = 0 .. size - 2, which stops at the first i that the inner loop accepts.
  \<open>None\<close> is good_records_index = -1.
\<close>

definition matches_later :: "dns_query_result_t list \<Rightarrow> nat \<Rightarrow> bool" where
  "matches_later results i =
     list_ex (\<lambda>j. dns_records_match (records (results ! i)) (records (results ! j)))
       [i + 1 ..< length results]"

definition find_good_records_index :: "dns_query_result_t list \<Rightarrow> nat option" where
  "find_good_records_index results =
     find (\<lambda>i. record_set_ok (results ! i) \<and> matches_later results i)
       [0 ..< length results - 1]"

fun show_digit :: "nat \<Rightarrow> char" where
  "show_digit n = (''0123456789'' ! (n mod 10))"

fun to_string :: "nat \<Rightarrow> string" where
  "to_string n = (if n < 10 then [show_digit n] else to_string (n div 10) @ [show_digit n])"

declare to_string.simps [simp del]

fun join :: "string list \<Rightarrow> string \<Rightarrow> string" where
  "join [] sep = []"
| "join [x] sep = x"
| "join (x # y # ys) sep = x @ sep @ join (y # ys) sep"

text \<open>
  The first index is drawn modulo the number of hosts; the log loop starts there and wraps
  around, so it visits \<open>rotate first_index [0..<size]\<close>. The list of hosts is the constant
  \<open>dns_urls\<close> of four entries in every call of the program.
\<close>

definition load_txt_records_from_dns :: "collab \<Rightarrow> string list \<Rightarrow> Updater \<Rightarrow> Updater" where
  "load_txt_records_from_dns env urls u0 =
     (let u1 = setDnsValid TriUnknown (u0\<lparr>dns_query_done := False\<rparr>);
          u2 = u1\<lparr>good_dns_records := []\<rparr>;
          first_index = random_engine env mod length urls;
          u3 = add_message (''Lookup up DNS TXT records for: '' @ join urls '', '') u2;
          results = map (get_txt_record env) urls;
          u4 = u3\<lparr>dns_query_results := results\<rparr>;
          u5 = foldl (dns_log_skip urls results) u4 (rotate first_index [0 ..< length urls])
      in if num_valid_records results < 2 then
           (setDnsValid TriFalse
              (add_message ''WARNING: no two valid DNS TXT records were received'' u5))
             \<lparr>dns_query_done := True\<rparr>
         else
           (case find_good_records_index results of
              None \<Rightarrow>
                (setDnsValid TriFalse
                   (add_message ''WARNING: no two DNS TXT records matched'' u5))
                  \<lparr>dns_query_done := True\<rparr>
            | Some good_records_index \<Rightarrow>
                (setDnsValid TriTrue
                   ((add_message (''Found '' @ to_string (num_valid_records results) @ ''/''
                        @ to_string (length urls) @ '' matching DNSSEC records'') u5)
                      \<lparr>good_dns_records := records (results ! good_records_index)\<rparr>))
                  \<lparr>dns_query_done := True\<rparr>))"

section \<open>Version selection stage\<close>

text \<open>
  boost::split with boost::is_any_of and the default token_compress_off: every separator
  ends a field, empty fields are kept, and the empty input has one empty field.
\<close>

fun split :: "string \<Rightarrow> string \<Rightarrow> string list" where
  "split [] seps = [[]]"
| "split (c # cs) seps =
     (if c \<in> set seps then [] # split cs seps
      else (case split cs seps of [] \<Rightarrow> [[c]] | f # fs \<Rightarrow> (c # f) # fs))"

text \<open>isalnum of the C library in the "C" locale.\<close>

definition isalnum :: "char \<Rightarrow> bool" where
  "isalnum c = (c \<in> set (''0123456789'' @ ''ABCDEFGHIJKLMNOPQRSTUVWXYZ''
                           @ ''abcdefghijklmnopqrstuvwxyz''))"

text \<open>
  The test on the hash field as the source has it: the flag alnum is cleared by any
  character that is not alphanumeric, and the record is dropped when the size is not 64
  and alnum is false, both together.
\<close>

definition hash_field_rejected :: "string \<Rightarrow> bool" where
  "hash_field_rejected f3 = (length f3 \<noteq> 64 \<and> \<not> list_all isalnum f3)"

text \<open>
  The loop over the records. The locals \<open>found\<close> and \<open>hash\<close> are arguments; the member
  \<open>version\<close> lives in the object. The first equation is the code after the loop, the
  branch "Two matches found" is the return from inside the loop.
\<close>

fun process_records ::
  "collab \<Rightarrow> string \<Rightarrow> string \<Rightarrow> string list \<Rightarrow> bool \<Rightarrow> string \<Rightarrow> Updater \<Rightarrow> Updater" where
  "process_records env sw tag [] found hash u =
     (if version u \<noteq> [] then
        (emit (versionChanged (version u)) (u\<lparr>expected_hash := hash\<rparr>))\<lparr>version_check_done := True\<rparr>
      else u\<lparr>version_check_done := True\<rparr>)"
| "process_records env sw tag (record # rest) found hash u =
     (let u1 = add_message (''Got record: '' @ record) u;
          fields = split record '':''
      in if length fields \<noteq> 4 then
           process_records env sw tag rest found hash
             (add_message (''Updates record does not have 4 fields: '' @ record) u1)
         else if \<not> (sw = fields ! 0 \<and> tag = fields ! 1) then
           process_records env sw tag rest found hash u1
         else if hash_field_rejected (fields ! 3) then
           process_records env sw tag rest found hash
             (add_message (''Invalid hash: '' @ fields ! 3) u1)
         else if found \<and> vercmp env (version u1) (fields ! 2) > 0 then
           process_records env sw tag rest found hash u1
         else if found \<and> vercmp env (version u1) (fields ! 2) = 0 \<and> hash \<noteq> fields ! 3 then
           (add_message (''Two matches found for '' @ sw @ '' version '' @ version u1
                          @ '' on '' @ tag) u1)
             \<lparr>version := [], version_check_done := True\<rparr>
         else
           process_records env sw tag rest True (fields ! 3)
             (add_message (''Found new version '' @ fields ! 2 @ '' with hash '' @ fields ! 3)
                (u1\<lparr>version := fields ! 2\<rparr>)))"

definition process_version :: "collab \<Rightarrow> string \<Rightarrow> string \<Rightarrow> string list \<Rightarrow> Updater \<Rightarrow> Updater" where
  "process_version env sw tag recs u =
     process_records env sw tag recs False []
       (emit (versionChanged []) (u\<lparr>version_check_done := False, version := []\<rparr>))"

section \<open>Hash check stage\<close>

definition digits :: string where
  "digits = ''0123456789abcdef''"

text \<open>
  The loop that renders the digest: two characters per byte, the high nibble first. The
  array file_hash has 32 entries, so the text has 64 characters.
\<close>

definition file_hash_as_text :: "uint8_t list \<Rightarrow> string" where
  "file_hash_as_text file_hash =
     concat (map (\<lambda>b. [digits ! unat (drop_bit 4 b), digits ! unat (b AND 0xf)]) file_hash)"

definition check_hash :: "collab \<Rightarrow> Updater \<Rightarrow> Updater" where
  "check_hash env u0 =
     (let u1 = setHashValid TriUnknown u0
      in case sha256sum env (download_path u1) of
           None \<Rightarrow> setHashValid TriFalse (add_message ''Error calculating file hash'' u1)
         | Some file_hash \<Rightarrow>
             if file_hash_as_text file_hash \<noteq> expected_hash u1 then
               setHashValid TriFalse (add_message ''Invalid file hash'' u1)
             else
               setHashValid TriTrue
                 (emit (validUpdateReady (download_path u1))
                    (add_message (''Update verified, hash '' @ file_hash_as_text file_hash) u1)))"

section \<open>The OpenPGP engine\<close>

text \<open>The two summary bits of gpgme.h that the code tests.\<close>

definition GPGME_SIGSUM_VALID :: "32 word" where
  "GPGME_SIGSUM_VALID = 0x0001"

definition GPGME_SIGSUM_RED :: "32 word" where
  "GPGME_SIGSUM_RED = 0x0004"

text \<open>
  The result is the verdict with the value of the reference parameter \<open>fingerprint\<close>
  after the call: it is written only once a signature has been found in the result.
\<close>

definition verify_gitian_signature ::
  "collab \<Rightarrow> string \<Rightarrow> string \<Rightarrow> string \<Rightarrow> tristate_t \<times> string" where
  "verify_gitian_signature env contents signature fingerprint =
     (if gpgme_data_new_from_mem env contents \<noteq> 0 then (TriUnknown, fingerprint)
      else if gpgme_data_new_from_mem env signature \<noteq> 0 then (TriUnknown, fingerprint)
      else if gpgme_op_verify env signature contents \<noteq> 0 then (TriFalse, fingerprint)
      else
        (case gpgme_op_verify_result env signature contents of
           None \<Rightarrow> (TriFalse, fingerprint)
         | Some None \<Rightarrow> (TriFalse, fingerprint)
         | Some (Some sg) \<Rightarrow>
             if sig_status sg \<noteq> 0 then (TriUnknown, sig_fpr sg)
             else if sig_summary sg AND GPGME_SIGSUM_RED \<noteq> 0 then (TriFalse, sig_fpr sg)
             else if sig_summary sg AND GPGME_SIGSUM_VALID \<noteq> 0 then (TriTrue, sig_fpr sg)
             else (TriTrue, sig_fpr sg)))"

section \<open>Key import stage\<close>

text \<open>
  Association lists stand for the two std::map objects of the code:
  \<open>assign\<close> is \<open>m[k] = v\<close>, \<open>insert_pair\<close> is \<open>m.insert(make_pair(k, v))\<close>, which
  leaves a key that is present alone, and \<open>map_of\<close> is \<open>m.find(k)\<close>.
\<close>

definition assign :: "(string \<times> string) list \<Rightarrow> string \<Rightarrow> string \<Rightarrow> (string \<times> string) list" where
  "assign m k v = (if map_of m k = None then m @ [(k, v)]
                   else map (\<lambda>p. if fst p = k then (k, v) else p) m)"

definition insert_pair :: "(string \<times> string) list \<Rightarrow> string \<Rightarrow> string \<Rightarrow> (string \<times> string) list" where
  "insert_pair m k v = (if map_of m k = None then m @ [(k, v)] else m)"

definition init_gpgme :: "collab \<Rightarrow> Updater \<Rightarrow> bool \<times> Updater" where
  "init_gpgme env u =
     (let u1 = u\<lparr>gpg_home := temp_directory_path env @ ''/'' @ unique_path env ''%%%%-%%%%-%%%%-%%%%''\<rparr>
      in if gpgme_engine_check_version env \<noteq> 0 then (False, u1)
         else if gpgme_new env \<noteq> 0 then (False, u1)
         else (True, u1))"

definition import_failed :: "Updater \<Rightarrow> Updater" where
  "import_failed u = u\<lparr>gitian_pubkeys_import_done := True, gitian_pubkeys_import_success := False\<rparr>"

text \<open>The loop over the table of trusted keys; every failure returns from the function.\<close>

fun import_keys :: "collab \<Rightarrow> (string \<times> string) list \<Rightarrow> Updater \<Rightarrow> Updater" where
  "import_keys env [] u =
     u\<lparr>gitian_pubkeys_import_done := True, gitian_pubkeys_import_success := True\<rparr>"
| "import_keys env (e # es) u =
     (if gpgme_data_new_from_mem env (snd e) \<noteq> 0 then import_failed u
      else if gpgme_op_import env (snd e) \<noteq> 0 then import_failed u
      else
        (case gpgme_op_import_result env (snd e) of
           None \<Rightarrow> import_failed u
         | Some None \<Rightarrow> import_failed u
         | Some (Some imp) \<Rightarrow>
             (case imp_fpr imp of
                None \<Rightarrow> import_failed u
              | Some fingerprint \<Rightarrow>
                  if imp_result imp \<noteq> 0 then import_failed u
                  else if gpgme_get_key env fingerprint \<noteq> 0 then import_failed u
                  else if gpgme_op_tofu_policy env fingerprint \<noteq> 0 then import_failed u
                  else
                    import_keys env es
                      ((add_message (''Imported key '' @ fingerprint @ '' from '' @ fst e) u)
                         \<lparr>imported_fingerprints :=
                            assign (imported_fingerprints u) fingerprint (fst e)\<rparr>))))"

definition import_pubkeys :: "collab \<Rightarrow> Updater \<Rightarrow> Updater" where
  "import_pubkeys env u0 =
     (let u1 = u0\<lparr>gitian_pubkeys_import_done := False, gitian_pubkeys_import_success := False\<rparr>
      in case init_gpgme env u1 of
           (False, u2) \<Rightarrow> import_failed (add_message ''Failed to initialize GPG'' u2)
         | (True, u2) \<Rightarrow> import_keys env (pubkeys env) u2)"

section \<open>Signature quorum stage\<close>

definition set_state :: "State \<Rightarrow> Updater \<Rightarrow> Updater" where
  "set_state s u = u\<lparr>next_state := s\<rparr>"

fun strstr :: "string \<Rightarrow> string \<Rightarrow> bool" where
  "strstr [] needle = (needle = [])"
| "strstr (c # cs) needle = (take (length needle) (c # cs) = needle \<or> strstr cs needle)"

definition subdir_of :: "string \<Rightarrow> string \<Rightarrow> string" where
  "subdir_of tag sw = (if strstr tag ''-source'' then ''source''
                       else if strstr sw ''-gui'' then [] else ''cli'')"

text \<open>boost::filesystem::path(url).filename(): what follows the last slash.\<close>

definition path_filename :: "string \<Rightarrow> string" where
  "path_filename url = rev (takeWhile (\<lambda>c. c \<noteq> CHR ''/'') (rev url))"

definition dnssec_to_gitian :: "(string \<times> string) list" where
  "dnssec_to_gitian =
     [(''linux-x64'', ''x86_64-linux-gnu''), (''linux-x32'', ''i686-linux-gnu''),
      (''win-x64'', ''x86_64-w64-mingw32''), (''win-x32'', ''i686-w64-mingw32''),
      (''freebsd'', ''x86_64-unknown-freebsd''), (''mac-x64'', ''x86_64-apple-darwin11''),
      (''linux-armv7'', ''arm-linux-gnueabihf''), (''linux-armv8'', ''aarch64-linux-gnu'')]"

definition platform_to_gitian :: "(string \<times> string) list" where
  "platform_to_gitian = [(''mac'', ''osx'')]"

text \<open>std::string::find(pat, idx): the first position from idx on where pat occurs.\<close>

definition find_from :: "string \<Rightarrow> string \<Rightarrow> nat \<Rightarrow> nat option" where
  "find_from s pat idx =
     find (\<lambda>p. take (length pat) (drop p s) = pat) [idx ..< Suc (length s) - length pat]"

definition user_charset :: string where
  "user_charset = ''abcdefghijlkmnopqrstuvwxyzABCDEFGHIJLKMNOPQRSTUVWXYZ_-0123456789''"

definition strspn :: "string \<Rightarrow> string \<Rightarrow> nat" where
  "strspn str accept = length (takeWhile (\<lambda>c. c \<in> set accept) str)"

text \<open>
  The scan of the listing page for user names. The prefix of a link is the text
  \<open>href="\<close> followed by the path of the tree, so it is never empty. The length
  given to substr is computed in size_t: when the closing quote follows the prefix at once
  it wraps around and substr takes the rest of the page.
\<close>

definition link_prefix_of :: "string \<Rightarrow> string" where
  "link_prefix_of base_tree_url_path = ''href='' @ [CHR 0x22] @ base_tree_url_path"

function extract_users :: "string \<Rightarrow> string \<Rightarrow> nat \<Rightarrow> string list \<Rightarrow> string list" where
  "extract_users s base_tree_url_path idx users =
     (case find_from s (link_prefix_of base_tree_url_path) idx of
        None \<Rightarrow> users
      | Some idx1 \<Rightarrow>
          (case find_from s [CHR 0x22] (idx1 + length (link_prefix_of base_tree_url_path)) of
             None \<Rightarrow> users
           | Some idx2 \<Rightarrow>
               if idx2 + 2 \<ge> length s then users
               else
                 (let n = length (link_prefix_of base_tree_url_path);
                      user = (if idx2 = idx1 + n then drop (idx1 + n + 1) s
                              else take (idx2 - idx1 - n - 1) (drop (idx1 + n + 1) s))
                  in if length user > 20 \<or> strspn user user_charset \<noteq> length user then
                       extract_users s base_tree_url_path idx2 users
                     else extract_users s base_tree_url_path idx2 (users @ [user]))))"
  by pat_completeness auto


lemma find_from_bounds:
  "find_from s pat idx = Some p \<Longrightarrow> idx \<le> p \<and> p + length pat \<le> length s"
  by (auto simp: find_from_def find_Some_iff)

lemma extract_users_progress:
  assumes "find_from s (link_prefix_of b) idx = Some idx1"
    and "find_from s [CHR 0x22] (idx1 + length (link_prefix_of b)) = Some idx2"
    and "\<not> length s \<le> idx2 + 2"
  shows "length s - idx2 < length s - idx"
proof -
  have "idx \<le> idx1" using assms(1) by (simp add: find_from_bounds)
  moreover have "idx1 + length (link_prefix_of b) \<le> idx2"
    using assms(2) by (simp add: find_from_bounds)
  moreover have "0 < length (link_prefix_of b)" by (simp add: link_prefix_of_def)
  ultimately show ?thesis using assms(3) by linarith
qed

termination extract_users
  by (relation "measure (\<lambda>(s, b, idx, users). length s - idx)")
     (simp_all add: extract_users_progress del: length_0_conv length_greater_0_conv)

declare extract_users.simps [simp del]

text \<open>The locals of fetch_gitian_sigs that the loop over the users reads.\<close>

record gitian_locals =
  base_blob_url :: string
  platform :: string
  filename :: string
  expression :: string

text \<open>
  The search of the assertion file for the line with the hash: the file is split at the
  newlines, and the last line that matches gives the hash.
\<close>

definition extract_hash :: "collab \<Rightarrow> string \<Rightarrow> string \<Rightarrow> bool \<times> string" where
  "extract_hash env expr assert_contents =
     foldl (\<lambda>(found, hash) line.
              case regex_search env expr line of
                None \<Rightarrow> (found, hash)
              | Some h \<Rightarrow> (True, h))
       (False, []) (split assert_contents [CHR 0x0A])"

text \<open>
  The body of the loop for one user, up to the statement that counts the user as
  processed. The state of the loop is the object with the local map \<open>fingerprints\<close>.
\<close>

definition assert_url_of :: "gitian_locals \<Rightarrow> Updater \<Rightarrow> string \<Rightarrow> string" where
  "assert_url_of loc u user =
     (let short_version = take 4 (version u)
      in base_blob_url loc @ ''/'' @ user @ ''/'' @ software u @ ''-'' @ platform loc @ ''-''
         @ short_version @ ''-build.assert'')"

definition sig_url_of :: "gitian_locals \<Rightarrow> Updater \<Rightarrow> string \<Rightarrow> string" where
  "sig_url_of loc u user =
     (let short_version = take 4 (version u)
      in base_blob_url loc @ ''/'' @ user @ ''/'' @ software u @ ''-'' @ platform loc @ ''-''
         @ short_version @ ''-build.assert.sig'')"

definition verify_user ::
  "collab \<Rightarrow> gitian_locals \<Rightarrow> Updater \<times> (string \<times> string) list \<Rightarrow> string
     \<Rightarrow> Updater \<times> (string \<times> string) list" where
  "verify_user env loc st user =
     (let u = fst st; fingerprints = snd st;
          assert_url = assert_url_of loc u user;
          sig_url = sig_url_of loc u user
      in case http_download env assert_url of
           None \<Rightarrow> (add_message (''Failed to fetch '' @ assert_url) u, fingerprints)
         | Some assert_contents \<Rightarrow>
            (case http_download env sig_url of
               None \<Rightarrow> (add_message (''Failed to fetch '' @ sig_url) u, fingerprints)
             | Some sig_contents \<Rightarrow>
                (let res = fst (verify_gitian_signature env assert_contents sig_contents []);
                     fingerprint = snd (verify_gitian_signature env assert_contents sig_contents []);
                     it = map_of fingerprints fingerprint;
                     imported = map_of (imported_fingerprints u) fingerprint
                 in if res = TriTrue \<and> it = None \<and> imported \<noteq> None then
                      (let found = fst (extract_hash env (expression loc) assert_contents);
                           hash = snd (extract_hash env (expression loc) assert_contents)
                       in if \<not> found then
                            (add_message (''No hash found in Gitian assert file for ''
                                @ filename loc @ '' from '' @ user) u, fingerprints)
                          else if hash \<noteq> expected_hash u then
                            (add_message (''Gitian hash does not match expected hash for ''
                                @ filename loc @ '' from '' @ user) u, fingerprints)
                          else
                            (setValidGitianSigs (validGitianSigs u + 1)
                               (add_message (''Good Gitian signature with matching hash from ''
                                  @ user @ '', fingerprint '' @ fingerprint) u),
                             insert_pair fingerprints fingerprint user))
                    else if res = TriTrue \<and> it = None \<and> imported = None then
                      (add_message (''Valid Gitian signature from '' @ user @ '', but from key ''
                          @ fingerprint @ '' which is not the one on record'') u, fingerprints)
                    else if res = TriTrue \<and> it \<noteq> None then
                      (add_message (''Duplicate Gitian signature from '' @ user
                          @ '', previously seen from '' @ (case it of None \<Rightarrow> [] | Some w \<Rightarrow> w)
                          @ '', fingerprint '' @ fingerprint) u, fingerprints)
                    else if res = TriFalse then
                      ((add_message (''Bad Gitian signature from '' @ user) u)
                         \<lparr>bad_gitian_signature_found := True\<rparr>, fingerprints)
                    else
                      (add_message (''Inconclusive Gitian signature from '' @ user
                          @ '', fingerprint '' @ fingerprint) u, fingerprints))))"

text \<open>One round of the loop: the body, then the count of processed users goes up.\<close>

definition user_round ::
  "collab \<Rightarrow> gitian_locals \<Rightarrow> Updater \<times> (string \<times> string) list \<Rightarrow> string
     \<Rightarrow> Updater \<times> (string \<times> string) list" where
  "user_round env loc st user =
     (let st1 = verify_user env loc st user
      in (setProcessedGitianSigs (processedGitianSigs (fst st1) + 1) (fst st1), snd st1))"

definition users_loop ::
  "collab \<Rightarrow> gitian_locals \<Rightarrow> Updater \<times> (string \<times> string) list \<Rightarrow> string list
     \<Rightarrow> Updater \<times> (string \<times> string) list" where
  "users_loop env loc st users = foldl (user_round env loc) st users"

text \<open>The statements after the loop.\<close>

definition finish_gitian_sigs :: "Updater \<Rightarrow> Updater" where
  "finish_gitian_sigs u =
     u\<lparr>gitian_verify_sigs_done := True,
       gitian_verify_sigs_success :=
         (validGitianSigs u \<ge> MIN_GITIAN_SIGS \<and> \<not> bad_gitian_signature_found u)\<rparr>"

definition gitian_platform :: "string \<Rightarrow> string" where
  "gitian_platform tag =
     (let platform = takeWhile (\<lambda>c. c \<noteq> CHR ''-'') tag
      in case map_of platform_to_gitian platform of None \<Rightarrow> platform | Some p \<Rightarrow> p)"

definition no_gitian_sigs :: "Updater \<Rightarrow> Updater" where
  "no_gitian_sigs u =
     set_state StateNoGitianSigs
       ((setValidGitianSigs 0 (add_message ''Gitian signatures not found'' u))
          \<lparr>gitian_verify_sigs_done := True, gitian_verify_sigs_success := False\<rparr>)"

text \<open>
  The locals that fetch_gitian_sigs computes from the members buildtag, version and
  software before the loop: the path of the listing, the locals read by the loop, and the
  object as it enters the loop for the users found.
\<close>

definition base_tree_url_path_of :: "Updater \<Rightarrow> string" where
  "base_tree_url_path_of u =
     ''/monero-project/gitian.sigs/tree/master/v'' @ version u @ ''-''
     @ gitian_platform (buildtag u)"

definition base_blob_url_path_of :: "Updater \<Rightarrow> string" where
  "base_blob_url_path_of u =
     ''/monero-project/gitian.sigs/master/v'' @ version u @ ''-''
     @ gitian_platform (buildtag u)"

definition base_tree_url_of :: "Updater \<Rightarrow> string" where
  "base_tree_url_of u = ''https://github.com'' @ base_tree_url_path_of u"

definition gitian_locals_of :: "collab \<Rightarrow> Updater \<Rightarrow> gitian_locals" where
  "gitian_locals_of env u =
     (let subdir = subdir_of (buildtag u) (software u);
          gitian_tag = (case map_of dnssec_to_gitian (buildtag u) of
                          None \<Rightarrow> buildtag u | Some t \<Rightarrow> t);
          url = get_update_url env (software u) subdir gitian_tag (version u);
          filename = path_filename url
      in \<lparr>base_blob_url = ''https://raw.githubusercontent.com'' @ base_blob_url_path_of u,
          platform = gitian_platform (buildtag u),
          filename = filename,
          expression = ''([abcdefABCDEF0123456789]+)  '' @ filename @ ''$''\<rparr>)"

definition fetch_start :: "Updater \<Rightarrow> Updater" where
  "fetch_start u0 =
     (let u1 = u0\<lparr>gitian_verify_sigs_success := False, bad_gitian_signature_found := False\<rparr>;
          u2 = setProcessedGitianSigs 0 (setTotalGitianSigs 0 u1)
      in add_message (''Fetching Gitian signatures from '' @ base_tree_url_of u2) u2)"

definition loop_entry :: "Updater \<Rightarrow> string list \<Rightarrow> Updater" where
  "loop_entry u0 users =
     setTotalGitianSigs (of_nat (length users))
       (set_state StateVerifyGitianSignatures
          (setMinValidGitianSigs MIN_GITIAN_SIGS (setValidGitianSigs 0 (fetch_start u0))))"

definition fetch_gitian_sigs :: "collab \<Rightarrow> Updater \<Rightarrow> Updater" where
  "fetch_gitian_sigs env u0 =
     (let u3 = fetch_start u0
      in case http_download env (base_tree_url_of u0) of
           None \<Rightarrow> no_gitian_sigs u3
         | Some s \<Rightarrow>
            (let u4 = setMinValidGitianSigs MIN_GITIAN_SIGS (setValidGitianSigs 0 u3);
                 users = extract_users s (base_tree_url_path_of u0) 0 []
             in if users = [] then
                  set_state StateNoGitianSigs
                    (add_message ''No Gitian signatures found''
                       (u4\<lparr>gitian_verify_sigs_done := True, gitian_verify_sigs_success := False\<rparr>))
                else
                  finish_gitian_sigs
                    (fst (users_loop env (gitian_locals_of env u0) (loop_entry u0 users, []) users))))"

section \<open>Download stage\<close>

definition start_download :: "collab \<Rightarrow> Updater \<Rightarrow> Updater" where
  "start_download env u =
     (let subdir = subdir_of (buildtag u) (software u);
          url = get_update_url env (software u) subdir (buildtag u) (version u);
          filename = path_filename url;
          u1 = u\<lparr>download_path := temp_directory_path env @ ''/''
                     @ unique_path env (''%%%%-%%%%-%%%%-%%%%-'' @ filename),
                 download_done := False, download_success := False\<rparr>;
          u2 = add_message (''Downloading '' @ url @ '' to '' @ download_path u1) u1
      in emit downloadStarted (u2\<lparr>download_handle := True\<rparr>))"

text \<open>The two callbacks that the asynchronous download invokes.\<close>

definition on_result :: "bool \<Rightarrow> Updater \<Rightarrow> Updater" where
  "on_result success u =
     (emit (downloadFinished success)
        ((add_message (''Download finished: '' @ (if success then ''success'' else ''failed'')) u)
           \<lparr>download_done := True, download_success := success\<rparr>))
       \<lparr>download_handle := False\<rparr>"

definition on_progress :: "nat \<Rightarrow> int \<Rightarrow> Updater \<Rightarrow> Updater" where
  "on_progress len content_length u = emit (downloadProgress len content_length) u"

section \<open>Commands and the worker thread\<close>

definition retryDownload :: "Updater \<Rightarrow> Updater" where
  "retryDownload u = (if state u = StateDownloadFailed then set_state StateDownload u else u)"

text \<open>The command select has no test of the current state; an unknown name is only logged.\<close>

definition select :: "string \<Rightarrow> Updater \<Rightarrow> Updater" where
  "select s u =
     (if s = ''gui'' then set_state StateQueryDNS (u\<lparr>software := ''monero-gui''\<rparr>)
      else if s = ''cli'' then set_state StateQueryDNS (u\<lparr>software := ''monero''\<rparr>)
      else u)"

definition getSelecting :: "Updater \<Rightarrow> bool" where
  "getSelecting u = (state u = StateInit)"

definition enter_init :: "Updater \<Rightarrow> Updater" where
  "enter_init u =
     (setMinValidGitianSigs 0 (setValidGitianSigs 0 (setHashValid TriUnknown
        (setDnsValid TriUnknown (u\<lparr>dns_query_done := False, version_check_done := False\<rparr>)))))
       \<lparr>bad_gitian_signature_found := False\<rparr>"

definition change_state :: "collab \<Rightarrow> Updater \<Rightarrow> Updater" where
  "change_state env u =
     (if state u = next_state u then u
      else
        (let u1 = u\<lparr>state := next_state u\<rparr>;
             s = state u1;
             selecting = getSelecting u1;
             u2 = emit (selectingChanged selecting)
                    (emit (stateOutcomeChanged (get_state_outcome s))
                       (emit (stateChanged (get_state_name s)) u1))
         in case s of
              StateInit \<Rightarrow> enter_init u2
            | StateQueryDNS \<Rightarrow> load_txt_records_from_dns env dns_urls u2
            | StateCheckVersion \<Rightarrow>
                process_version env (software u2) (buildtag u2) (good_dns_records u2) u2
            | StateDownload \<Rightarrow> start_download env u2
            | StateCheckHash \<Rightarrow> check_hash env u2
            | StateImportPubkeys \<Rightarrow> import_pubkeys env u2
            | StateFetchGitianSigs \<Rightarrow> fetch_gitian_sigs env u2
            | _ \<Rightarrow> u2))"

text \<open>The switch of updater_thread, which picks the next state once a stage is done.\<close>

definition next_state_switch :: "collab \<Rightarrow> Updater \<Rightarrow> Updater" where
  "next_state_switch env u =
     (case state u of
        StateQueryDNS \<Rightarrow>
          if \<not> dns_query_done u then u
          else if good_dns_records u = [] then set_state StateDNSFailed u
          else set_state StateCheckVersion u
      | StateCheckVersion \<Rightarrow>
          if \<not> version_check_done u then u
          else if version u = [] then set_state StateNoUpdateInfoFound u
          else if vercmp env (version u) (current_version u) > 0 then
            set_state StateImportPubkeys u
          else if vercmp env (version u) (current_version u) < 0 then
            set_state StateBackInTime u
          else set_state StateUpToDate u
      | StateImportPubkeys \<Rightarrow>
          if \<not> gitian_pubkeys_import_done u then u
          else if gitian_pubkeys_import_success u then set_state StateFetchGitianSigs u
          else set_state StatePubkeyImportFailed u
      | StateVerifyGitianSignatures \<Rightarrow>
          if \<not> gitian_verify_sigs_done u then u
          else if gitian_verify_sigs_success u then set_state StateDownload u
          else if \<not> bad_gitian_signature_found u then set_state StateNotEnoughGitianSigs u
          else set_state StateBadGitianSigs u
      | StateDownload \<Rightarrow>
          if \<not> download_done u then u
          else if download_success u then set_state StateCheckHash u
          else set_state StateDownloadFailed u
      | StateCheckHash \<Rightarrow>
          if hashValid u = TriTrue then set_state StateValidUpdate u
          else if hashValid u = TriFalse then set_state StateBadHash u
          else u
      | _ \<Rightarrow> u)"

text \<open>
  One round of the loop of updater_thread while the flag running is set, and \<open>n\<close>
  rounds in a row with no command and no callback in between.
\<close>

definition updater_thread_round :: "collab \<Rightarrow> Updater \<Rightarrow> Updater" where
  "updater_thread_round env u = next_state_switch env (change_state env u)"

fun updater_thread :: "collab \<Rightarrow> nat \<Rightarrow> Updater \<Rightarrow> Updater" where
  "updater_thread env 0 u = u"
| "updater_thread env (Suc n) u =
     (if running u then updater_thread env n (updater_thread_round env u) else u)"

text \<open>The constructor: the initialiser list, then set_state(StateInit).\<close>

definition Updater_new :: "string \<Rightarrow> Updater" where
  "Updater_new tag = set_state StateInit (Updater_init tag)"

section \<open>Comparators and collaborators for the examples\<close>

text \<open>
  Modelled from the spec: tools::vercmp, declared in common/vercmp.h, which is not under
  src/. The spec (4.3) has it as a dotted-numeric comparator: the versions are split at the
  dots, the components are compared as integers one by one, and the shorter list of
  components counts as padded with zeros.
\<close>

definition digit_value :: "char \<Rightarrow> int" where
  "digit_value c = int (of_char c) - 48"

definition component_value :: "string \<Rightarrow> int" where
  "component_value f =
     foldl (\<lambda>n c. 10 * n + digit_value c) 0 (takeWhile (\<lambda>c. c \<in> set ''0123456789'') f)"

fun compare_components :: "int list \<Rightarrow> int list \<Rightarrow> int" where
  "compare_components [] [] = 0"
| "compare_components (a # as) [] = (if a = 0 then compare_components as [] else a)"
| "compare_components [] (b # bs) = (if b = 0 then compare_components [] bs else - b)"
| "compare_components (a # as) (b # bs) =
     (if a = b then compare_components as bs else a - b)"

definition vercmp_spec :: "string \<Rightarrow> string \<Rightarrow> int" where
  "vercmp_spec v0 v1 =
     compare_components (map component_value (split v0 ''.''))
       (map component_value (split v1 ''.''))"

text \<open>
  Collaborators for the examples: no host answers with DNSSEC, no download succeeds, no
  digest can be computed, the engine reports no error and has no result. The URL builder
  puts the sub-channel, the software, the build tag and the version into one path.
\<close>

definition update_url :: "string \<Rightarrow> string \<Rightarrow> string \<Rightarrow> string \<Rightarrow> string" where
  "update_url sw subdir tag ver =
     ''https://updates.getmonero.org/'' @ (if subdir = [] then [] else subdir @ ''/'')
     @ sw @ ''-'' @ tag @ ''-v'' @ ver @ ''.tar.bz2''"

definition no_answer :: dns_query_result_t where
  "no_answer = \<lparr>records = [], avail = False, valid = False\<rparr>"

definition offline :: collab where
  "offline =
     \<lparr> get_txt_record = (\<lambda>host. no_answer),
       random_engine = 0,
       vercmp = vercmp_spec,
       sha256sum = (\<lambda>path. None),
       get_update_url = update_url,
       temp_directory_path = ''/tmp'',
       unique_path = (\<lambda>pattern. pattern),
       http_download = (\<lambda>url. None),
       regex_search = (\<lambda>expr line. None),
       pubkeys = [],
       gpgme_engine_check_version = 0,
       gpgme_new = 0,
       gpgme_data_new_from_mem = (\<lambda>d. 0),
       gpgme_op_import = (\<lambda>d. 0),
       gpgme_op_import_result = (\<lambda>d. None),
       gpgme_get_key = (\<lambda>f. 0),
       gpgme_op_tofu_policy = (\<lambda>f. 0),
       gpgme_op_verify = (\<lambda>sg c. 0),
       gpgme_op_verify_result = (\<lambda>sg c. None) \<rparr>"

text \<open>Two TXT records of the wire format, for one version with two different hashes.\<close>

definition record_a :: string where
  "record_a = ''monero:linux-x64:0.18.1.0:00112233445566778899aabbccddeeff00112233445566778899aabbccddeeff''"

definition record_b :: string where
  "record_b = ''monero:linux-x64:0.18.1.0:ffeeddccbbaa99887766554433221100ffeeddccbbaa99887766554433221100''"

text \<open>A record for a later version.\<close>

definition record_c :: string where
  "record_c = ''monero:linux-x64:0.18.2.0:0123456789abcdef0123456789abcdef0123456789abcdef0123456789abcdef''"

text \<open>
  DNS answers in which two hosts validate with DNSSEC and publish different records, and a
  third host, without DNSSEC, repeats the record of the first.
\<close>

definition one_validated_host :: "string \<Rightarrow> dns_query_result_t" where
  "one_validated_host host =
     (if host = ''updates.moneropulse.org'' then \<lparr>records = [record_a], avail = True, valid = True\<rparr>
      else if host = ''updates.moneropulse.net'' then \<lparr>records = [record_a], avail = False, valid = False\<rparr>
      else if host = ''updates.moneropulse.co'' then \<lparr>records = [record_b], avail = True, valid = True\<rparr>
      else no_answer)"

text \<open>An engine whose verification result is the one signature given.\<close>

definition engine_reports :: "gpgme_signature \<Rightarrow> collab" where
  "engine_reports sg = offline\<lparr>gpgme_op_verify_result := (\<lambda>s c. Some (Some sg))\<rparr>"

text \<open>
  A run in which no host answers with DNSSEC: the worker enters Init, the user selects
  the command line client, and three more rounds of the worker end in StateDNSFailed.
\<close>

definition dns_failed_run :: Updater where
  "dns_failed_run =
     updater_thread offline 3 (select ''cli'' (updater_thread offline 1 (Updater_new ''linux-x64'')))"

text \<open>A digest of 32 bytes, its text, and a collaborator that computes it for every file.\<close>

definition digest_bytes :: "uint8_t list" where
  "digest_bytes = [0x00, 0x11, 0x22, 0x33, 0x44, 0x55, 0x66, 0x77,
                   0x88, 0x99, 0xaa, 0xbb, 0xcc, 0xdd, 0xee, 0xff,
                   0x00, 0x11, 0x22, 0x33, 0x44, 0x55, 0x66, 0x77,
                   0x88, 0x99, 0xaa, 0xbb, 0xcc, 0xdd, 0xee, 0xff]"

definition digest_text :: string where
  "digest_text = ''00112233445566778899aabbccddeeff00112233445566778899aabbccddeeff''"

definition downloaded :: Updater where
  "downloaded = (Updater_init ''linux-x64'')
     \<lparr>state := StateDownload, next_state := StateCheckHash,
      expected_hash := digest_text, download_path := ''/tmp/monero.tar.bz2''\<rparr>"

text \<open>
  A release with three signers. The listing page links to the users alice, bob and carol,
  the three assertion files have the line with the expected hash, and the engine reports
  the signature of each user by the key of that user, with the summary that belongs to the
  text of the signature file: good (VALID and GREEN) or red.
\<close>

definition listing_page :: string where
  "listing_page =
     ''<a href='' @ [CHR 0x22] @ ''/monero-project/gitian.sigs/tree/master/v0.18.1.0-linux/alice''
     @ [CHR 0x22] @ ''>alice</a> <a href='' @ [CHR 0x22]
     @ ''/monero-project/gitian.sigs/tree/master/v0.18.1.0-linux/bob''
     @ [CHR 0x22] @ ''>bob</a> <a href='' @ [CHR 0x22]
     @ ''/monero-project/gitian.sigs/tree/master/v0.18.1.0-linux/carol''
     @ [CHR 0x22] @ ''>carol</a>   ''"

definition artifact_line :: string where
  "artifact_line = digest_text @ ''  monero-x86_64-linux-gnu-v0.18.1.0.tar.bz2''"

definition blob_url :: string where
  "blob_url = ''https://raw.githubusercontent.com/monero-project/gitian.sigs/master/v0.18.1.0-linux/''"

definition signers :: "string \<Rightarrow> string \<Rightarrow> string \<Rightarrow> collab" where
  "signers sig_alice sig_bob sig_carol =
     offline\<lparr>
       http_download := (\<lambda>url.
         if url = ''https://github.com/monero-project/gitian.sigs/tree/master/v0.18.1.0-linux''
         then Some listing_page
         else if url = blob_url @ ''alice/monero-linux-0.18-build.assert''
         then Some (''gitian build of alice'' @ [CHR 0x0A] @ artifact_line)
         else if url = blob_url @ ''alice/monero-linux-0.18-build.assert.sig''
         then Some (''alice:'' @ sig_alice)
         else if url = blob_url @ ''bob/monero-linux-0.18-build.assert''
         then Some (''gitian build of bob'' @ [CHR 0x0A] @ artifact_line)
         else if url = blob_url @ ''bob/monero-linux-0.18-build.assert.sig''
         then Some (''bob:'' @ sig_bob)
         else if url = blob_url @ ''carol/monero-linux-0.18-build.assert''
         then Some (''gitian build of carol'' @ [CHR 0x0A] @ artifact_line)
         else if url = blob_url @ ''carol/monero-linux-0.18-build.assert.sig''
         then Some (''carol:'' @ sig_carol)
         else None),
       regex_search := (\<lambda>expr line.
         if expr = ''([abcdefABCDEF0123456789]+)  monero-x86_64-linux-gnu-v0.18.1.0.tar.bz2$''
            \<and> line = artifact_line
         then Some digest_text else None),
       gpgme_op_verify_result := (\<lambda>sg contents.
         Some (Some \<lparr>sig_fpr = (if take 5 sg = ''alice'' then ''FPRA''
                                 else if take 3 sg = ''bob'' then ''FPRB'' else ''FPRC''),
                     sig_status = 0,
                     sig_summary = (if strstr sg ''good'' then 3 else GPGME_SIGSUM_RED)\<rparr>))\<rparr>"

text \<open>The object as fetch_gitian_sigs finds it in that release, the three keys imported.\<close>

definition fetching :: Updater where
  "fetching = (Updater_init ''linux-x64'')
     \<lparr>state := StateFetchGitianSigs, next_state := StateFetchGitianSigs,
      version := ''0.18.1.0'', expected_hash := digest_text,
      imported_fingerprints := [(''FPRA'', ''alice''), (''FPRB'', ''bob''), (''FPRC'', ''carol'')]\<rparr>"

section \<open>Notions used in the statements\<close>

text \<open>The signals emitted between two states of the object.\<close>

definition emitted_since :: "Updater \<Rightarrow> Updater \<Rightarrow> signal list" where
  "emitted_since u u' = drop (length (emitted u)) (emitted u')"

text \<open>
  The lowercase hexadecimal rendering of a list of bytes, written from the meaning of the
  notation and not from the table and the shifts of the code: a byte gives two characters,
  the digit of its value divided by 16 and the digit of the remainder, where the digits
  0 to 9 are the characters with the codes 48 to 57 and the digits 10 to 15 the characters
  a to f, with the codes 97 to 102. \<open>hex_bytes\<close> reads such a text back: the value of a
  character is its code less 48 for 0 to 9 and less 87 for a to f, and two characters give
  the byte 16 times the first value plus the second.
\<close>

definition hex_digit :: "nat \<Rightarrow> char" where
  "hex_digit n = char_of (if n < 10 then 48 + n else 87 + n)"

definition lowercase_hex :: "uint8_t list \<Rightarrow> string" where
  "lowercase_hex bytes =
     concat (map (\<lambda>b. [hex_digit (unat b div 16), hex_digit (unat b mod 16)]) bytes)"

definition hex_value :: "char \<Rightarrow> nat" where
  "hex_value c = (if (of_char c :: nat) < 58 then of_char c - 48 else of_char c - 87)"

fun hex_bytes :: "string \<Rightarrow> uint8_t list" where
  "hex_bytes (c # d # cs) = of_nat (16 * hex_value c + hex_value d) # hex_bytes cs"
| "hex_bytes cs = []"

text \<open>
  The digest of the downloaded file can be computed and its lowercase hexadecimal
  rendering is the expected hash, character by character.
\<close>

definition digest_matches :: "collab \<Rightarrow> Updater \<Rightarrow> bool" where
  "digest_matches env u =
     (case sha256sum env (download_path u) of
        None \<Rightarrow> False
      | Some h \<Rightarrow> lowercase_hex h = expected_hash u)"

definition buffers_created :: "collab \<Rightarrow> string \<Rightarrow> string \<Rightarrow> bool" where
  "buffers_created env contents signature =
     (gpgme_data_new_from_mem env contents = 0 \<and> gpgme_data_new_from_mem env signature = 0)"

text \<open>
  The verdict and the fingerprint that verify_gitian_signature gives for the files of a
  user, when both files can be fetched.
\<close>

definition signature_checked ::
  "collab \<Rightarrow> gitian_locals \<Rightarrow> Updater \<Rightarrow> string \<Rightarrow> (tristate_t \<times> string) option" where
  "signature_checked env loc u user =
     (case http_download env (assert_url_of loc u user) of
        None \<Rightarrow> None
      | Some assert_contents \<Rightarrow>
          (case http_download env (sig_url_of loc u user) of
             None \<Rightarrow> None
           | Some sig_contents \<Rightarrow>
               Some (verify_gitian_signature env assert_contents sig_contents [])))"

text \<open>
  A record survives the tests of process_version when it has four fields, the first two are
  the software and the build tag, and the test on the hash field does not drop it. The
  survivors of a list of records are kept as pairs of version and hash.
\<close>

definition survives :: "string \<Rightarrow> string \<Rightarrow> string \<Rightarrow> bool" where
  "survives sw tag record =
     (length (split record '':'') = 4 \<and> sw = split record '':'' ! 0
      \<and> tag = split record '':'' ! 1 \<and> \<not> hash_field_rejected (split record '':'' ! 3))"

definition survivors :: "string \<Rightarrow> string \<Rightarrow> string list \<Rightarrow> (string \<times> string) list" where
  "survivors sw tag recs =
     map (\<lambda>record. (split record '':'' ! 2, split record '':'' ! 3)) (filter (survives sw tag) recs)"

text \<open>
  The loop of process_version seen from the survivors: the state is \<open>None\<close> once the
  selection has been aborted, \<open>Some None\<close> while nothing has been found, and
  \<open>Some (Some b)\<close> when b is the record kept so far. \<open>selected\<close> reads the
  outcome off the object.
\<close>

definition keep_best ::
  "(string \<Rightarrow> string \<Rightarrow> int) \<Rightarrow> (string \<times> string) option option \<Rightarrow> string \<times> string
     \<Rightarrow> (string \<times> string) option option" where
  "keep_best cmp acc x =
     (case acc of
        None \<Rightarrow> None
      | Some None \<Rightarrow> Some (Some x)
      | Some (Some b) \<Rightarrow>
          if cmp (fst b) (fst x) > 0 then Some (Some b)
          else if cmp (fst b) (fst x) = 0 \<and> snd b \<noteq> snd x then None
          else Some (Some x))"

definition selected ::
  "(string \<times> string) option option \<Rightarrow> string \<Rightarrow> Updater \<Rightarrow> bool" where
  "selected res e0 r =
     (case res of
        None \<Rightarrow> version r = [] \<and> expected_hash r = e0
      | Some None \<Rightarrow> version r = [] \<and> expected_hash r = e0
      | Some (Some b) \<Rightarrow>
          version r = fst b \<and> expected_hash r = (if fst b = [] then e0 else snd b))"

text \<open>
  The comparator behaves as an order on the versions given: comparing the other way round
  flips the sign, and "not higher than" is transitive.
\<close>

definition comparator_on :: "(string \<Rightarrow> string \<Rightarrow> int) \<Rightarrow> string list \<Rightarrow> bool" where
  "comparator_on cmp vs =
     list_all (\<lambda>a. list_all (\<lambda>b.
         ((0 < cmp a b) = (cmp b a < 0)) \<and> ((cmp a b = 0) = (cmp b a = 0))
         \<and> list_all (\<lambda>c. cmp a b \<le> 0 \<and> cmp b c \<le> 0 \<longrightarrow> cmp a c \<le> 0) vs) vs) vs"

text \<open>
  The list of survivors is ambiguous at position j when an earlier record has the version
  of record j with a different hash, and no earlier record has a higher version.
\<close>

definition ambiguous_at :: "(string \<Rightarrow> string \<Rightarrow> int) \<Rightarrow> (string \<times> string) list \<Rightarrow> nat \<Rightarrow> bool" where
  "ambiguous_at cmp S j =
     (list_ex (\<lambda>i. cmp (fst (S ! i)) (fst (S ! j)) = 0 \<and> snd (S ! i) \<noteq> snd (S ! j)) [0 ..< j]
      \<and> list_all (\<lambda>i. cmp (fst (S ! i)) (fst (S ! j)) \<le> 0) [0 ..< j])"

definition ambiguous :: "(string \<Rightarrow> string \<Rightarrow> int) \<Rightarrow> (string \<times> string) list \<Rightarrow> bool" where
  "ambiguous cmp S = list_ex (ambiguous_at cmp S) [0 ..< length S]"

text \<open>The running best: a record of the list that no record exceeds, and with which every
  record of the same version shares the hash.\<close>

definition best_of :: "(string \<Rightarrow> string \<Rightarrow> int) \<Rightarrow> (string \<times> string) list \<Rightarrow> string \<times> string \<Rightarrow> bool" where
  "best_of cmp S x =
     (x \<in> set S \<and> list_all (\<lambda>y. 0 \<le> cmp (fst x) (fst y)
                               \<and> (cmp (fst x) (fst y) = 0 \<longrightarrow> snd y = snd x)) S)"

section \<open>Theorems\<close>

text \<open>
  C9 (as the code has it): setMinValidGitianSigs(n) writes n to minValidGitianSigs and
  emits minValidGitianSigsChanged with the value of validGitianSigs, not with n. On the
  freshly constructed object (validGitianSigs = 0) the call with n = 2 emits the payload 0;
  for every n and every object the payload is validGitianSigs.
\<close>

theorem setMinValidGitianSigs_emits_valid_count:
  "minValidGitianSigs (setMinValidGitianSigs 2 (Updater_init ''linux-x64'')) = 2
   \<and> emitted (setMinValidGitianSigs 2 (Updater_init ''linux-x64'')) = [minValidGitianSigsChanged 0]
   \<and> (\<forall>n u. minValidGitianSigs (setMinValidGitianSigs n u) = n
              \<and> emitted (setMinValidGitianSigs n u)
                  = emitted u @ [minValidGitianSigsChanged (validGitianSigs u)])"
  by (simp add: setMinValidGitianSigs_def emit_def Updater_init_def)

text \<open>
  C2 (as the code has it): the inner loop of the DNS quorum compares the records of host i
  with the records of every later host j and never looks at the DNSSEC flags of j. With the
  answers \<open>one_validated_host\<close> the two validated hosts (the first and the third) publish
  different records, and the second host, which has no DNSSEC, repeats the records of the
  first: the stage sets dnsValid to true and takes the records of the first host.
\<close>

theorem load_txt_records_unvalidated_match:
  "dnsValid (load_txt_records_from_dns (offline\<lparr>get_txt_record := one_validated_host\<rparr>)
              dns_urls (Updater_init ''linux-x64'')) = TriTrue
   \<and> good_dns_records (load_txt_records_from_dns (offline\<lparr>get_txt_record := one_validated_host\<rparr>)
              dns_urls (Updater_init ''linux-x64'')) = [record_a]
   \<and> map record_set_ok (map one_validated_host dns_urls) = [True, False, True, False]
   \<and> dns_records_match (records (one_validated_host ''updates.moneropulse.org''))
        (records (one_validated_host ''updates.moneropulse.co'')) = False"
  by (simp add: load_txt_records_from_dns_def offline_def one_validated_host_def dns_urls_def
      no_answer_def num_valid_records_def record_set_ok_def find_good_records_index_def
      matches_later_def dns_records_match_def setDnsValid_def add_message_def emit_def
      Updater_init_def record_a_def record_b_def Let_def upt_rec)

text \<open>
  C6 (as the code has it): the record is dropped only when the hash field has a size other
  than 64 and also holds a character that is not alphanumeric. A record whose hash field
  is the three characters abc passes the test and is selected: its version and its hash
  are published.
\<close>

theorem process_version_short_hash:
  "version (process_version offline ''monero'' ''linux-x64'' [''monero:linux-x64:0.18.1.0:abc'']
              (Updater_init ''linux-x64'')) = ''0.18.1.0''
   \<and> expected_hash (process_version offline ''monero'' ''linux-x64'' [''monero:linux-x64:0.18.1.0:abc'']
              (Updater_init ''linux-x64'')) = ''abc''"
  by (simp add: process_version_def hash_field_rejected_def isalnum_def add_message_def emit_def
      Updater_init_def Let_def)

text \<open>
  C8 (as the code has it): select does not look at the current state. After a run that
  ended in StateDNSFailed, select("cli") sets the pending state to StateQueryDNS and the
  next round of the worker commits it: the edge from StateDNSFailed to StateQueryDNS is
  taken, which the transition table does not have. In every state of the object the two
  valid selections set the pending state to StateQueryDNS.
\<close>

theorem select_outside_init:
  "state dns_failed_run = StateDNSFailed
   \<and> next_state dns_failed_run = StateDNSFailed
   \<and> next_state (select ''cli'' dns_failed_run) = StateQueryDNS
   \<and> state (updater_thread offline 1 (select ''cli'' dns_failed_run)) = StateQueryDNS
   \<and> (\<forall>u. next_state (select ''cli'' u) = StateQueryDNS
           \<and> next_state (select ''gui'' u) = StateQueryDNS)"
proof -
  have run: "state dns_failed_run = StateDNSFailed
   \<and> next_state dns_failed_run = StateDNSFailed
   \<and> next_state (select ''cli'' dns_failed_run) = StateQueryDNS
   \<and> state (updater_thread offline 1 (select ''cli'' dns_failed_run)) = StateQueryDNS"
    by code_simp
  have "next_state (select ''cli'' u) = StateQueryDNS
           \<and> next_state (select ''gui'' u) = StateQueryDNS" for u
    by (simp add: select_def set_state_def)
  with run show ?thesis by blast
qed

subsection \<open>The verdict on one signature\<close>

text \<open>
  C3, counterexample: with status 0 and no summary bit at all the function returns true,
  although the engine does not report VALID; with a nonzero status and the RED bit set it
  returns unknown, although RED is set.
\<close>

theorem verify_gitian_signature_not_as_claimed:
  "fst (verify_gitian_signature
          (engine_reports \<lparr>sig_fpr = ''F1'', sig_status = 0, sig_summary = 0\<rparr>)
          ''contents'' ''signature'' [])
     = TriTrue
   \<and> (0 :: 32 word) AND GPGME_SIGSUM_VALID = 0
   \<and> fst (verify_gitian_signature
          (engine_reports \<lparr>sig_fpr = ''F1'', sig_status = 8, sig_summary = GPGME_SIGSUM_RED\<rparr>)
          ''contents'' ''signature'' [])
     = TriUnknown
   \<and> GPGME_SIGSUM_RED AND GPGME_SIGSUM_RED \<noteq> 0"
  by (simp add: verify_gitian_signature_def engine_reports_def offline_def
      GPGME_SIGSUM_VALID_def GPGME_SIGSUM_RED_def)

text \<open>
  C3, amended: verify_gitian_signature returns
  \<^item> true exactly when both data buffers are created, gpgme_op_verify returns no error,
    the result has a signature, its status is 0 and its RED bit is clear (the VALID bit is
    not needed);
  \<^item> false exactly when both buffers are created and gpgme_op_verify returns an error, or
    the result is null or has no signature, or the signature has status 0 and the RED bit;
  \<^item> unknown exactly when a buffer cannot be created, or the verification ran and the
    status of the signature is not 0 (with or without the RED bit).
\<close>

theorem verify_gitian_signature_verdict:
  "(fst (verify_gitian_signature env contents signature fp) = TriTrue \<longleftrightarrow>
      buffers_created env contents signature \<and> gpgme_op_verify env signature contents = 0 \<and>
      (\<exists>sg. gpgme_op_verify_result env signature contents = Some (Some sg) \<and>
            sig_status sg = 0 \<and> sig_summary sg AND GPGME_SIGSUM_RED = 0))
   \<and> (fst (verify_gitian_signature env contents signature fp) = TriFalse \<longleftrightarrow>
      buffers_created env contents signature \<and>
      (gpgme_op_verify env signature contents \<noteq> 0 \<or>
       gpgme_op_verify_result env signature contents = None \<or>
       gpgme_op_verify_result env signature contents = Some None \<or>
       (\<exists>sg. gpgme_op_verify_result env signature contents = Some (Some sg) \<and>
             sig_status sg = 0 \<and> sig_summary sg AND GPGME_SIGSUM_RED \<noteq> 0)))
   \<and> (fst (verify_gitian_signature env contents signature fp) = TriUnknown \<longleftrightarrow>
      \<not> buffers_created env contents signature \<or>
      (gpgme_op_verify env signature contents = 0 \<and>
       (\<exists>sg. gpgme_op_verify_result env signature contents = Some (Some sg) \<and>
             sig_status sg \<noteq> 0)))"
  by (auto simp: verify_gitian_signature_def buffers_created_def split: option.splits)

theorem verify_gitian_signature_verdict_witness:
  "fst (verify_gitian_signature
          (engine_reports \<lparr>sig_fpr = ''F1'', sig_status = 0, sig_summary = GPGME_SIGSUM_VALID\<rparr>)
          ''contents'' ''signature'' []) = TriTrue"
  using verify_gitian_signature_verdict
    [of "engine_reports \<lparr>sig_fpr = ''F1'', sig_status = 0, sig_summary = GPGME_SIGSUM_VALID\<rparr>"
        "''contents''" "''signature''" "[]"]
  by (simp add: buffers_created_def engine_reports_def offline_def
      GPGME_SIGSUM_VALID_def GPGME_SIGSUM_RED_def)

subsection \<open>The hash check\<close>

lemma nibble_digit: "n < 16 \<Longrightarrow> digits ! n \<in> set digits"
  by (rule nth_mem) (simp add: digits_def)

lemma high_nibble_bound: "unat (drop_bit 4 (b :: uint8_t)) < 16"
proof -
  have "unat b < 256" using unsigned_less [of b] by simp
  moreover have "unat (drop_bit 4 b) = unat b div 16"
    by (simp add: drop_bit_eq_div unat_div)
  ultimately show ?thesis by simp
qed

lemma low_nibble_bound: "unat ((b :: uint8_t) AND 0xf) < 16"
proof -
  have "unat (b AND 15) \<le> unat (15 :: uint8_t)"
    by (rule word_and_le1 [THEN word_le_nat_alt [THEN iffD1]])
  then show ?thesis by simp
qed

lemma file_hash_as_text_length: "length (file_hash_as_text h) = 2 * length h"
  by (induction h) (simp_all add: file_hash_as_text_def)

lemma file_hash_as_text_hex: "set (file_hash_as_text h) \<subseteq> set digits"
  unfolding file_hash_as_text_def
  by (induction h) (simp_all add: nibble_digit high_nibble_bound low_nibble_bound)

text \<open>The three ways through check_hash, with what each leaves in the object.\<close>

lemma check_hash_cases:
  "check_hash env u =
     (case sha256sum env (download_path u) of
        None \<Rightarrow> u\<lparr>hashValid := TriFalse,
                  messages := messages u @ [''Error calculating file hash''],
                  emitted := emitted u @ [hashValidChanged TriUnknown,
                     message ''Error calculating file hash'', hashValidChanged TriFalse]\<rparr>
      | Some h \<Rightarrow>
          if file_hash_as_text h \<noteq> expected_hash u then
            u\<lparr>hashValid := TriFalse,
              messages := messages u @ [''Invalid file hash''],
              emitted := emitted u @ [hashValidChanged TriUnknown,
                 message ''Invalid file hash'', hashValidChanged TriFalse]\<rparr>
          else
            u\<lparr>hashValid := TriTrue,
              messages := messages u @ [''Update verified, hash '' @ file_hash_as_text h],
              emitted := emitted u @ [hashValidChanged TriUnknown,
                 message (''Update verified, hash '' @ file_hash_as_text h),
                 validUpdateReady (download_path u), hashValidChanged TriTrue]\<rparr>)"
  by (simp add: check_hash_def Let_def setHashValid_def add_message_def emit_def
      split: option.splits)

text \<open>
  The rendering of the code is the lowercase hexadecimal rendering: the table of the code
  holds the sixteen digits in order, the shift gives the quotient by 16 and the mask the
  remainder. Reading the rendering back gives the bytes.
\<close>

lemma of_char_hex_digit:
  "n < 16 \<Longrightarrow> (of_char (hex_digit n) :: nat) = (if n < 10 then 48 + n else 87 + n)"
  by (simp add: hex_digit_def)

lemma of_char_digits_table:
  "list_all (\<lambda>n. (of_char (digits ! n) :: nat) = (if n < 10 then 48 + n else 87 + n)) [0 ..< 16]"
  by (simp add: upt_rec digits_def)

lemma of_char_digits:
  "n < 16 \<Longrightarrow> (of_char (digits ! n) :: nat) = (if n < 10 then 48 + n else 87 + n)"
  using of_char_digits_table unfolding list_all_iff by simp

lemma digits_nth: "n < 16 \<Longrightarrow> digits ! n = hex_digit n"
  using of_char_digits [of n] of_char_hex_digit [of n]
  by (metis of_char_eq_iff)

lemma hex_value_digit: "n < 16 \<Longrightarrow> hex_value (hex_digit n) = n"
  by (simp add: hex_value_def of_char_hex_digit)

lemma hex_digit_lowercase:
  assumes "n < 16"
  shows "hex_digit n \<in> set ''0123456789abcdef''"
proof -
  have "length digits = 16" by (simp add: digits_def)
  with assms have "digits ! n \<in> set digits" by (simp only: nth_mem)
  then have "hex_digit n \<in> set digits" by (simp only: digits_nth [OF assms])
  then show ?thesis by (simp only: digits_def)
qed

lemma high_nibble: "unat (drop_bit 4 (b :: uint8_t)) = unat b div 16"
  by (simp add: drop_bit_eq_div unat_div)

lemma low_nibble: "unat ((b :: uint8_t) AND 0xf) = unat b mod 16"
proof -
  have "b AND 0xf = take_bit 4 b"
    by (simp add: take_bit_eq_mask mask_eq_exp_minus_1)
  then show ?thesis by (simp add: unat_mod take_bit_eq_mod)
qed

lemma byte_bound: "unat (b :: uint8_t) < 256"
  using unsigned_less [of b] by simp


lemma file_hash_as_text_lowercase_hex: "file_hash_as_text h = lowercase_hex h"
proof -
  have "[digits ! unat (drop_bit 4 b), digits ! unat (b AND 0xf)]
          = [hex_digit (unat b div 16), hex_digit (unat b mod 16)]" for b :: uint8_t
  proof -
    have "unat b div 16 < 16" using byte_bound [of b] by simp
    moreover have "unat b mod 16 < 16" by simp
    ultimately show ?thesis by (simp only: high_nibble low_nibble digits_nth)
  qed
  then show ?thesis by (simp add: file_hash_as_text_def lowercase_hex_def)
qed

lemma hex_bytes_lowercase_hex: "hex_bytes (lowercase_hex h) = h"
proof (induction h)
  case Nil
  show ?case by (simp add: lowercase_hex_def)
next
  case (Cons b h)
  have d: "unat b div 16 < 16" using byte_bound [of b] by simp
  have m: "unat b mod 16 < 16" by simp
  have "(of_nat (16 * (unat b div 16) + unat b mod 16) :: uint8_t) = b"
    by simp
  then show ?case
    using Cons by (simp add: lowercase_hex_def hex_value_digit [OF d] hex_value_digit [OF m])
qed

lemma lowercase_hex_alphabet: "set (lowercase_hex h) \<subseteq> set ''0123456789abcdef''"
proof (induction h)
  case Nil
  show ?case by (simp add: lowercase_hex_def)
next
  case (Cons b h)
  have d: "unat b div 16 < 16" using byte_bound [of b] by simp
  have m: "unat b mod 16 < 16" by simp
  show ?case
    using Cons hex_digit_lowercase [OF d] hex_digit_lowercase [OF m]
    by (simp add: lowercase_hex_def)
qed

lemma lowercase_hex_length: "length (lowercase_hex h) = 2 * length h"
  by (induction h) (simp_all add: lowercase_hex_def)

text \<open>
  C4: after check_hash, hashValid is true exactly when the digest of the downloaded file
  is computed and its lowercase hexadecimal rendering equals expected_hash, and false in
  every other case. The signal validUpdateReady is among the signals of the stage exactly
  in the case of success, and it carries the download path. The text that the code
  compares is that rendering: it equals \<open>lowercase_hex\<close> of the digest, which reads
  back to the digest, has two characters per byte (64 for the 32 bytes of a digest) and
  only the characters 0 to 9 and a to f.
\<close>

theorem check_hash_verdict:
  "(hashValid (check_hash env u) = TriTrue \<longleftrightarrow> digest_matches env u)
   \<and> (hashValid (check_hash env u) = TriFalse \<longleftrightarrow> \<not> digest_matches env u)
   \<and> (validUpdateReady (download_path u) \<in> set (emitted_since u (check_hash env u))
        \<longleftrightarrow> digest_matches env u)
   \<and> (\<forall>p. validUpdateReady p \<in> set (emitted_since u (check_hash env u))
        \<longrightarrow> p = download_path u)
   \<and> (\<forall>h. sha256sum env (download_path u) = Some h \<and> length h = 32
        \<longrightarrow> length (file_hash_as_text h) = 64 \<and> set (file_hash_as_text h) \<subseteq> set digits)
   \<and> (\<forall>h. file_hash_as_text h = lowercase_hex h
           \<and> hex_bytes (lowercase_hex h) = h
           \<and> length (lowercase_hex h) = 2 * length h
           \<and> set (lowercase_hex h) \<subseteq> set ''0123456789abcdef'')"
proof (intro conjI allI impI)
  show "hashValid (check_hash env u) = TriTrue \<longleftrightarrow> digest_matches env u"
    by (simp add: check_hash_cases digest_matches_def file_hash_as_text_lowercase_hex
        split: option.splits)
  show "hashValid (check_hash env u) = TriFalse \<longleftrightarrow> \<not> digest_matches env u"
    by (simp add: check_hash_cases digest_matches_def file_hash_as_text_lowercase_hex
        split: option.splits)
  show "validUpdateReady (download_path u) \<in> set (emitted_since u (check_hash env u))
          \<longleftrightarrow> digest_matches env u"
    by (simp add: check_hash_cases digest_matches_def emitted_since_def
        file_hash_as_text_lowercase_hex split: option.splits)
  show "p = download_path u"
    if "validUpdateReady p \<in> set (emitted_since u (check_hash env u))" for p
    using that
    by (simp add: check_hash_cases emitted_since_def split: option.splits if_splits)
  show "length (file_hash_as_text h) = 64"
    if "sha256sum env (download_path u) = Some h \<and> length h = 32" for h
    using that by (simp add: file_hash_as_text_length)
  show "set (file_hash_as_text h) \<subseteq> set digits"
    if "sha256sum env (download_path u) = Some h \<and> length h = 32" for h
    by (rule file_hash_as_text_hex)
  show "file_hash_as_text h = lowercase_hex h" for h
    by (rule file_hash_as_text_lowercase_hex)
  show "hex_bytes (lowercase_hex h) = h" for h
    by (rule hex_bytes_lowercase_hex)
  show "length (lowercase_hex h) = 2 * length h" for h
    by (rule lowercase_hex_length)
  show "set (lowercase_hex h) \<subseteq> set ''0123456789abcdef''" for h
    by (rule lowercase_hex_alphabet)
qed

theorem check_hash_verdict_witness:
  "hashValid (check_hash (offline\<lparr>sha256sum := (\<lambda>path. Some digest_bytes)\<rparr>) downloaded) = TriTrue
   \<and> validUpdateReady ''/tmp/monero.tar.bz2''
       \<in> set (emitted_since downloaded
                (check_hash (offline\<lparr>sha256sum := (\<lambda>path. Some digest_bytes)\<rparr>) downloaded))
   \<and> length (file_hash_as_text digest_bytes) = 64
   \<and> lowercase_hex digest_bytes = digest_text
   \<and> hex_bytes digest_text = digest_bytes"
proof -
  have t: "file_hash_as_text digest_bytes = digest_text"
    by (simp add: digest_text_def digest_bytes_def file_hash_as_text_def digits_def
        drop_bit_eq_div)
  note v = check_hash_verdict [of "offline\<lparr>sha256sum := (\<lambda>path. Some digest_bytes)\<rparr>" downloaded]
  from v t have l: "lowercase_hex digest_bytes = digest_text" by metis
  have m: "digest_matches (offline\<lparr>sha256sum := (\<lambda>path. Some digest_bytes)\<rparr>) downloaded"
    by (simp add: digest_matches_def downloaded_def l)
  have p: "download_path downloaded = ''/tmp/monero.tar.bz2''"
    by (simp add: downloaded_def)
  have s: "sha256sum (offline\<lparr>sha256sum := (\<lambda>path. Some digest_bytes)\<rparr>) (download_path downloaded)
             = Some digest_bytes \<and> length digest_bytes = 32"
    by (simp add: digest_bytes_def)
  from v have "hex_bytes (lowercase_hex digest_bytes) = digest_bytes" by blast
  then have r: "hex_bytes digest_text = digest_bytes" by (simp only: l)
  show ?thesis using v m p s t l r by auto
qed

subsection \<open>A digest that cannot be computed\<close>

lemma change_state_idle: "state u = next_state u \<Longrightarrow> change_state env u = u"
  by (simp add: change_state_def)

lemma round_idle_BadHash:
  "state u = StateBadHash \<Longrightarrow> next_state u = StateBadHash \<Longrightarrow> updater_thread_round env u = u"
  by (simp add: updater_thread_round_def change_state_idle next_state_switch_def)

lemma thread_idle_BadHash:
  "state u = StateBadHash \<Longrightarrow> next_state u = StateBadHash \<Longrightarrow> updater_thread env n u = u"
  by (induction n) (simp_all add: round_idle_BadHash)

lemma enter_check_hash_failed:
  assumes "next_state u = StateCheckHash" "state u \<noteq> StateCheckHash"
    and "sha256sum env (download_path u) = None"
  shows "updater_thread_round env u =
           u\<lparr>state := StateCheckHash, next_state := StateBadHash, hashValid := TriFalse,
             messages := messages u @ [''Error calculating file hash''],
             emitted := emitted u @ [stateChanged ''Checking hash'', stateOutcomeChanged TriUnknown,
                selectingChanged False, hashValidChanged TriUnknown,
                message ''Error calculating file hash'', hashValidChanged TriFalse]\<rparr>"
  using assms
  by (simp add: updater_thread_round_def change_state_def Let_def getSelecting_def emit_def
      check_hash_cases next_state_switch_def set_state_def)

lemma enter_bad_hash:
  assumes "next_state u = StateBadHash" "state u \<noteq> StateBadHash"
  shows "updater_thread_round env u =
           u\<lparr>state := StateBadHash,
             emitted := emitted u @ [stateChanged ''Invalid hash'', stateOutcomeChanged TriFalse,
                selectingChanged False]\<rparr>"
  using assms
  by (simp add: updater_thread_round_def change_state_def Let_def getSelecting_def emit_def
      next_state_switch_def)

text \<open>
  C10: when the digest cannot be computed, check_hash leaves hashValid false and emits no
  validUpdateReady. A worker that is about to enter StateCheckHash then reaches
  StateBadHash in its second round and stays there: after any number of rounds from the
  second on, the state is StateBadHash, hashValid is false, and no validUpdateReady has
  been emitted.
\<close>

theorem hash_error_fails_closed:
  assumes "running u" and "next_state u = StateCheckHash" and "state u \<noteq> StateCheckHash"
    and "sha256sum env (download_path u) = None"
  shows "hashValid (check_hash env u) = TriFalse
         \<and> (\<forall>p. validUpdateReady p \<notin> set (emitted_since u (check_hash env u)))
         \<and> state (updater_thread env (Suc (Suc n)) u) = StateBadHash
         \<and> hashValid (updater_thread env (Suc (Suc n)) u) = TriFalse
         \<and> (\<forall>p. validUpdateReady p \<notin> set (emitted_since u (updater_thread env (Suc (Suc n)) u)))"
proof -
  define u1 where "u1 = updater_thread_round env u"
  define u2 where "u2 = updater_thread_round env u1"
  have e1: "u1 = u\<lparr>state := StateCheckHash, next_state := StateBadHash, hashValid := TriFalse,
             messages := messages u @ [''Error calculating file hash''],
             emitted := emitted u @ [stateChanged ''Checking hash'', stateOutcomeChanged TriUnknown,
                selectingChanged False, hashValidChanged TriUnknown,
                message ''Error calculating file hash'', hashValidChanged TriFalse]\<rparr>"
    unfolding u1_def using assms(2-4) by (rule enter_check_hash_failed)
  have e2: "u2 = u1\<lparr>state := StateBadHash,
             emitted := emitted u1 @ [stateChanged ''Invalid hash'', stateOutcomeChanged TriFalse,
                selectingChanged False]\<rparr>"
    unfolding u2_def by (rule enter_bad_hash) (simp_all add: e1)
  have r1: "running u1" using assms(1) by (simp add: e1)
  have idle: "updater_thread env n u2 = u2"
    by (rule thread_idle_BadHash) (simp_all add: e2 e1)
  have "updater_thread env (Suc (Suc n)) u = updater_thread env n u2"
    using assms(1) r1 by (simp add: u1_def [symmetric] u2_def [symmetric])
  with idle have run: "updater_thread env (Suc (Suc n)) u = u2" by simp
  have stage: "hashValid (check_hash env u) = TriFalse
         \<and> (\<forall>p. validUpdateReady p \<notin> set (emitted_since u (check_hash env u)))"
    using assms(4) by (simp add: check_hash_cases emitted_since_def)
  have "state u2 = StateBadHash" "hashValid u2 = TriFalse"
    "\<forall>p. validUpdateReady p \<notin> set (emitted_since u u2)"
    by (simp_all add: e2 e1 emitted_since_def)
  with stage run show ?thesis by simp
qed

theorem hash_error_fails_closed_witness:
  "hashValid (check_hash offline downloaded) = TriFalse
   \<and> state (updater_thread offline 2 downloaded) = StateBadHash
   \<and> hashValid (updater_thread offline 2 downloaded) = TriFalse
   \<and> validUpdateReady ''/tmp/monero.tar.bz2'' \<notin> set (emitted_since downloaded (updater_thread offline 2 downloaded))"
proof -
  have "running downloaded" "next_state downloaded = StateCheckHash"
    "state downloaded \<noteq> StateCheckHash" "sha256sum offline (download_path downloaded) = None"
    by (simp_all add: downloaded_def Updater_init_def offline_def)
  from hash_error_fails_closed [OF this, of 0] show ?thesis
    by (simp add: eval_nat_numeral)
qed

subsection \<open>The loop over the users\<close>

lemma verify_user_frame:
  "version (fst (verify_user env loc st user)) = version (fst st)
   \<and> software (fst (verify_user env loc st user)) = software (fst st)
   \<and> expected_hash (fst (verify_user env loc st user)) = expected_hash (fst st)
   \<and> imported_fingerprints (fst (verify_user env loc st user)) = imported_fingerprints (fst st)
   \<and> state (fst (verify_user env loc st user)) = state (fst st)
   \<and> next_state (fst (verify_user env loc st user)) = next_state (fst st)
   \<and> running (fst (verify_user env loc st user)) = running (fst st)
   \<and> processedGitianSigs (fst (verify_user env loc st user)) = processedGitianSigs (fst st)
   \<and> totalGitianSigs (fst (verify_user env loc st user)) = totalGitianSigs (fst st)"
  by (simp add: verify_user_def Let_def setValidGitianSigs_def add_message_def emit_def
      split: option.splits)


lemma verify_user_counters:
  "(validGitianSigs (fst (verify_user env loc st user)) = validGitianSigs (fst st)
      \<and> snd (verify_user env loc st user) = snd st)
   \<or> (\<exists>f. signature_checked env loc (fst st) user = Some (TriTrue, f)
          \<and> map_of (snd st) f = None
          \<and> validGitianSigs (fst (verify_user env loc st user)) = validGitianSigs (fst st) + 1
          \<and> snd (verify_user env loc st user) = snd st @ [(f, user)])"
  by (auto simp: verify_user_def signature_checked_def Let_def setValidGitianSigs_def
      add_message_def emit_def prod_eq_iff insert_pair_def split: option.splits)

lemma users_loop_snoc:
  "users_loop env loc st (xs @ [x]) = user_round env loc (users_loop env loc st xs) x"
  by (simp add: users_loop_def)

lemma users_loop_Nil: "users_loop env loc st [] = st"
  by (simp add: users_loop_def)

lemma user_round_frame:
  "version (fst (user_round env loc st user)) = version (fst st)
   \<and> software (fst (user_round env loc st user)) = software (fst st)
   \<and> expected_hash (fst (user_round env loc st user)) = expected_hash (fst st)
   \<and> imported_fingerprints (fst (user_round env loc st user)) = imported_fingerprints (fst st)
   \<and> state (fst (user_round env loc st user)) = state (fst st)
   \<and> next_state (fst (user_round env loc st user)) = next_state (fst st)
   \<and> running (fst (user_round env loc st user)) = running (fst st)
   \<and> totalGitianSigs (fst (user_round env loc st user)) = totalGitianSigs (fst st)"
  by (simp add: user_round_def Let_def setProcessedGitianSigs_def emit_def verify_user_frame)

lemma user_round_counters:
  "processedGitianSigs (fst (user_round env loc st user)) = processedGitianSigs (fst st) + 1
   \<and> validGitianSigs (fst (user_round env loc st user))
       = validGitianSigs (fst (verify_user env loc st user))
   \<and> bad_gitian_signature_found (fst (user_round env loc st user))
       = bad_gitian_signature_found (fst (verify_user env loc st user))
   \<and> snd (user_round env loc st user) = snd (verify_user env loc st user)"
  by (simp add: user_round_def Let_def setProcessedGitianSigs_def emit_def verify_user_frame)

lemma users_loop_frame:
  "version (fst (users_loop env loc st users)) = version (fst st)
   \<and> software (fst (users_loop env loc st users)) = software (fst st)
   \<and> expected_hash (fst (users_loop env loc st users)) = expected_hash (fst st)
   \<and> imported_fingerprints (fst (users_loop env loc st users)) = imported_fingerprints (fst st)
   \<and> state (fst (users_loop env loc st users)) = state (fst st)
   \<and> next_state (fst (users_loop env loc st users)) = next_state (fst st)
   \<and> running (fst (users_loop env loc st users)) = running (fst st)
   \<and> totalGitianSigs (fst (users_loop env loc st users)) = totalGitianSigs (fst st)"
  by (induction users rule: rev_induct)
     (simp_all add: users_loop_Nil users_loop_snoc user_round_frame)



lemma unat_succ:
  "unat (x :: uint32_t) < n \<Longrightarrow> n < 2 ^ 32 \<Longrightarrow> unat (x + 1) = unat x + 1"
  by (simp add: unat_word_ariths)

lemma loop_invariant:
  assumes "length users < 2 ^ 32" and "validGitianSigs u = 0" and "processedGitianSigs u = 0"
  shows "k \<le> length users \<Longrightarrow>
         unat (processedGitianSigs (fst (users_loop env loc (u, []) (take k users)))) = k
         \<and> unat (validGitianSigs (fst (users_loop env loc (u, []) (take k users)))) \<le> k
         \<and> length (snd (users_loop env loc (u, []) (take k users)))
             = unat (validGitianSigs (fst (users_loop env loc (u, []) (take k users))))
         \<and> distinct (map fst (snd (users_loop env loc (u, []) (take k users))))"
proof (induction k)
  case 0
  show ?case using assms(2,3) by (simp add: users_loop_Nil)
next
  case (Suc k)
  define st where "st = users_loop env loc (u, []) (take k users)"
  define mid where "mid = verify_user env loc st (users ! k)"
  have k: "k < length users" using Suc.prems by simp
  have IH: "unat (processedGitianSigs (fst st)) = k" "unat (validGitianSigs (fst st)) \<le> k"
    "length (snd st) = unat (validGitianSigs (fst st))" "distinct (map fst (snd st))"
    using Suc.IH k by (simp_all add: st_def)
  have step: "users_loop env loc (u, []) (take (Suc k) users) = user_round env loc st (users ! k)"
    by (simp add: take_Suc_conv_app_nth [OF k] users_loop_snoc st_def)
  have p: "unat (processedGitianSigs (fst st) + 1) = Suc k"
    using unat_succ [of "processedGitianSigs (fst st)" "length users"] IH(1) k assms(1) by simp
  have v: "unat (validGitianSigs (fst mid)) \<le> Suc k
           \<and> length (snd mid) = unat (validGitianSigs (fst mid))
           \<and> distinct (map fst (snd mid))"
    using verify_user_counters [of env loc st "users ! k"]
  proof (elim disjE exE conjE)
    assume "validGitianSigs (fst (verify_user env loc st (users ! k))) = validGitianSigs (fst st)"
      "snd (verify_user env loc st (users ! k)) = snd st"
    then show ?thesis using IH by (simp add: mid_def)
  next
    fix f
    assume a: "map_of (snd st) f = None"
      "validGitianSigs (fst (verify_user env loc st (users ! k))) = validGitianSigs (fst st) + 1"
      "snd (verify_user env loc st (users ! k)) = snd st @ [(f, users ! k)]"
    have "unat (validGitianSigs (fst st) + 1) = unat (validGitianSigs (fst st)) + 1"
      using unat_succ [of "validGitianSigs (fst st)" "length users"] IH(2) k assms(1) by simp
    moreover have "f \<notin> fst ` set (snd st)" using a(1) by (simp add: map_of_eq_None_iff)
    ultimately show ?thesis using IH a by (simp add: mid_def)
  qed
  show ?case
    using p v by (simp add: step user_round_counters mid_def [symmetric])
qed

lemma loop_entry_fields:
  "validGitianSigs (loop_entry u users) = 0
   \<and> processedGitianSigs (loop_entry u users) = 0
   \<and> totalGitianSigs (loop_entry u users) = of_nat (length users)
   \<and> next_state (loop_entry u users) = StateVerifyGitianSignatures
   \<and> state (loop_entry u users) = state u
   \<and> running (loop_entry u users) = running u
   \<and> version (loop_entry u users) = version u
   \<and> software (loop_entry u users) = software u
   \<and> \<not> bad_gitian_signature_found (loop_entry u users)"
  by (simp add: loop_entry_def fetch_start_def Let_def setTotalGitianSigs_def
      setProcessedGitianSigs_def setValidGitianSigs_def setMinValidGitianSigs_def
      set_state_def add_message_def emit_def)













text \<open>
  C7, counterexample: in the release with three good signers, the body of the loop for the
  first user raises validGitianSigs to 1 while processedGitianSigs is still 0; the signal
  validGitianSigsChanged(1) is emitted before processedGitianSigsChanged(1).
\<close>

theorem valid_exceeds_processed:
  "extract_users listing_page (base_tree_url_path_of fetching) 0 []
     = [''alice'', ''bob'', ''carol'']
   \<and> validGitianSigs (fst (verify_user (signers ''good'' ''good'' ''good'')
         (gitian_locals_of (signers ''good'' ''good'' ''good'') fetching)
         (loop_entry fetching [''alice'', ''bob'', ''carol''], []) ''alice'')) = 1
   \<and> processedGitianSigs (fst (verify_user (signers ''good'' ''good'' ''good'')
         (gitian_locals_of (signers ''good'' ''good'' ''good'') fetching)
         (loop_entry fetching [''alice'', ''bob'', ''carol''], []) ''alice'')) = 0
   \<and> take 2 (drop 7 (emitted (fetch_gitian_sigs (signers ''good'' ''good'' ''good'') fetching)))
       = [validGitianSigsChanged 1, processedGitianSigsChanged 1]"
  by code_simp

text \<open>
  C7, amended: for a listing of fewer than 2^32 users, after every round k of the loop
  over the users validGitianSigs \<le> processedGitianSigs \<le> totalGitianSigs holds, with
  processedGitianSigs = k; the map of the fingerprints seen has no fingerprint twice and
  has as many entries as validGitianSigs counts. Inside round k, after the body and before
  the count of processed users goes up, validGitianSigs is at most processedGitianSigs + 1
  and processedGitianSigs is below totalGitianSigs; the body either leaves validGitianSigs
  and the map alone, or the signature verified as true with a fingerprint that the map did
  not have, validGitianSigs goes up by one and the fingerprint enters the map.
\<close>

theorem gitian_counters:
  fixes env :: collab and loc :: gitian_locals and u :: Updater
    and users :: "string list" and k :: nat
  assumes "length users < 2 ^ 32" and "k \<le> length users"
  defines "st \<equiv> users_loop env loc (loop_entry u users, []) (take k users)"
  defines "mid \<equiv> verify_user env loc (users_loop env loc (loop_entry u users, []) (take k users)) (users ! k)"
  shows "validGitianSigs (fst st) \<le> processedGitianSigs (fst st)
         \<and> processedGitianSigs (fst st) \<le> totalGitianSigs (fst st)
         \<and> unat (processedGitianSigs (fst st)) = k
         \<and> length (snd st) = unat (validGitianSigs (fst st))
         \<and> distinct (map fst (snd st))
         \<and> (k < length users \<longrightarrow>
               unat (validGitianSigs (fst mid)) \<le> unat (processedGitianSigs (fst mid)) + 1
             \<and> processedGitianSigs (fst mid) < totalGitianSigs (fst mid)
             \<and> (validGitianSigs (fst mid) = validGitianSigs (fst st) \<and> snd mid = snd st
                \<or> (\<exists>f. signature_checked env loc (fst st) (users ! k) = Some (TriTrue, f)
                       \<and> map_of (snd st) f = None
                       \<and> validGitianSigs (fst mid) = validGitianSigs (fst st) + 1
                       \<and> snd mid = snd st @ [(f, users ! k)])))"
proof -
  have inv: "unat (processedGitianSigs (fst st)) = k" "unat (validGitianSigs (fst st)) \<le> k"
    "length (snd st) = unat (validGitianSigs (fst st))" "distinct (map fst (snd st))"
    using loop_invariant [OF assms(1), of "loop_entry u users" k env loc] assms(2)
    by (simp_all add: loop_entry_fields st_def)
  have tot: "unat (totalGitianSigs (fst st)) = length users"
    using assms(1) by (simp add: st_def users_loop_frame loop_entry_fields unat_of_nat)
  have cnt: "validGitianSigs (fst mid) = validGitianSigs (fst st) \<and> snd mid = snd st
                \<or> (\<exists>f. signature_checked env loc (fst st) (users ! k) = Some (TriTrue, f)
                       \<and> map_of (snd st) f = None
                       \<and> validGitianSigs (fst mid) = validGitianSigs (fst st) + 1
                       \<and> snd mid = snd st @ [(f, users ! k)])"
    unfolding mid_def st_def by (rule verify_user_counters)
  have frame: "processedGitianSigs (fst mid) = processedGitianSigs (fst st)"
    "totalGitianSigs (fst mid) = totalGitianSigs (fst st)"
    by (simp_all add: mid_def st_def verify_user_frame)
  have "unat (validGitianSigs (fst mid)) \<le> unat (validGitianSigs (fst st)) + 1"
    using cnt by (auto simp: unat_word_ariths intro: le_trans [OF mod_less_eq_dividend])
  then have midv: "unat (validGitianSigs (fst mid)) \<le> unat (processedGitianSigs (fst mid)) + 1"
    using inv(1,2) frame by simp
  have midp: "processedGitianSigs (fst mid) < totalGitianSigs (fst mid)" if "k < length users"
    using that inv(1) tot frame by (simp add: word_less_nat_alt)
  show ?thesis
    using inv tot cnt midv midp assms(2) by (simp add: word_le_nat_alt)
qed

theorem gitian_counters_witness:
  "validGitianSigs (fst (users_loop (signers ''good'' ''good'' ''good'')
       (gitian_locals_of (signers ''good'' ''good'' ''good'') fetching)
       (loop_entry fetching [''alice'', ''bob'', ''carol''], []) [''alice'', ''bob'', ''carol'']))
     \<le> processedGitianSigs (fst (users_loop (signers ''good'' ''good'' ''good'')
       (gitian_locals_of (signers ''good'' ''good'' ''good'') fetching)
       (loop_entry fetching [''alice'', ''bob'', ''carol''], []) [''alice'', ''bob'', ''carol'']))
   \<and> unat (processedGitianSigs (fst (users_loop (signers ''good'' ''good'' ''good'')
       (gitian_locals_of (signers ''good'' ''good'' ''good'') fetching)
       (loop_entry fetching [''alice'', ''bob'', ''carol''], []) [''alice'', ''bob'', ''carol'']))) = 3
   \<and> distinct (map fst (snd (users_loop (signers ''good'' ''good'' ''good'')
       (gitian_locals_of (signers ''good'' ''good'' ''good'') fetching)
       (loop_entry fetching [''alice'', ''bob'', ''carol''], []) [''alice'', ''bob'', ''carol''])))"
proof -
  have h: "length [''alice'', ''bob'', ''carol''] < 2 ^ 32"
    "(3::nat) \<le> length [''alice'', ''bob'', ''carol'']"
    by simp_all
  from gitian_counters [OF h, of "signers ''good'' ''good'' ''good''"
      "gitian_locals_of (signers ''good'' ''good'' ''good'') fetching" fetching]
  show ?thesis by simp
qed

subsection \<open>Version selection\<close>

lemma foldl_keep_best_None: "foldl (keep_best cmp) None S = None"
  by (induction S) (simp_all add: keep_best_def)

lemma survivors_Cons:
  "survivors sw tag (record # rest) =
     (if survives sw tag record
      then (split record '':'' ! 2, split record '':'' ! 3) # survivors sw tag rest
      else survivors sw tag rest)"
  by (simp add: survivors_def)

lemma add_message_fields:
  "version (add_message m u) = version u \<and> expected_hash (add_message m u) = expected_hash u"
  by (simp add: add_message_def emit_def)

lemma process_records_skip:
  assumes "\<not> survives sw tag rcd"
  shows "\<exists>m. process_records env sw tag (rcd # rest) found hash u
                = process_records env sw tag rest found hash m
             \<and> version m = version u \<and> expected_hash m = expected_hash u"
proof -
  define u1 where "u1 = add_message (''Got record: '' @ rcd) u"
  have u1: "version u1 = version u" "expected_hash u1 = expected_hash u"
    by (simp_all add: u1_def add_message_fields)
  consider (a) "length (split rcd '':'') \<noteq> 4"
    | (b) "length (split rcd '':'') = 4"
          "\<not> (sw = split rcd '':'' ! 0 \<and> tag = split rcd '':'' ! 1)"
    | (c) "length (split rcd '':'') = 4"
          "sw = split rcd '':'' ! 0 \<and> tag = split rcd '':'' ! 1"
          "hash_field_rejected (split rcd '':'' ! 3)"
    using assms by (auto simp: survives_def)
  then show ?thesis
  proof cases
    case a
    then have "process_records env sw tag (rcd # rest) found hash u =
        process_records env sw tag rest found hash
          (add_message (''Updates record does not have 4 fields: '' @ rcd) u1)"
      by (simp add: Let_def u1_def)
    then show ?thesis using u1 by (auto simp: add_message_fields)
  next
    case b
    then have "process_records env sw tag (rcd # rest) found hash u =
        process_records env sw tag rest found hash u1"
      by (simp add: Let_def u1_def)
    then show ?thesis using u1 by auto
  next
    case c
    then have "process_records env sw tag (rcd # rest) found hash u =
        process_records env sw tag rest found hash
          (add_message (''Invalid hash: '' @ split rcd '':'' ! 3) u1)"
      by (simp add: Let_def u1_def)
    then show ?thesis using u1 by (auto simp: add_message_fields)
  qed
qed

lemma process_records_survivor:
  assumes "survives sw tag rcd"
  shows "(found \<and> vercmp env (version u) (split rcd '':'' ! 2) > 0 \<longrightarrow>
            (\<exists>m. process_records env sw tag (rcd # rest) found hash u
                    = process_records env sw tag rest found hash m
                 \<and> version m = version u \<and> expected_hash m = expected_hash u))
       \<and> (found \<and> \<not> vercmp env (version u) (split rcd '':'' ! 2) > 0
            \<and> vercmp env (version u) (split rcd '':'' ! 2) = 0 \<and> hash \<noteq> split rcd '':'' ! 3 \<longrightarrow>
            version (process_records env sw tag (rcd # rest) found hash u) = []
            \<and> expected_hash (process_records env sw tag (rcd # rest) found hash u) = expected_hash u
            \<and> version_check_done (process_records env sw tag (rcd # rest) found hash u))
       \<and> (\<not> (found \<and> vercmp env (version u) (split rcd '':'' ! 2) > 0)
            \<and> \<not> (found \<and> vercmp env (version u) (split rcd '':'' ! 2) = 0
                   \<and> hash \<noteq> split rcd '':'' ! 3) \<longrightarrow>
            (\<exists>m. process_records env sw tag (rcd # rest) found hash u
                    = process_records env sw tag rest True (split rcd '':'' ! 3) m
                 \<and> version m = split rcd '':'' ! 2 \<and> expected_hash m = expected_hash u))"
proof -
  define u1 where "u1 = add_message (''Got record: '' @ rcd) u"
  have u1: "version u1 = version u" "expected_hash u1 = expected_hash u"
    by (simp_all add: u1_def add_message_fields)
  have s: "length (split rcd '':'') = 4" "sw = split rcd '':'' ! 0" "tag = split rcd '':'' ! 1"
    "\<not> hash_field_rejected (split rcd '':'' ! 3)"
    using assms by (simp_all add: survives_def)
  have unfold: "process_records env sw tag (rcd # rest) found hash u =
      (if found \<and> vercmp env (version u1) (split rcd '':'' ! 2) > 0 then
         process_records env sw tag rest found hash u1
       else if found \<and> vercmp env (version u1) (split rcd '':'' ! 2) = 0
               \<and> hash \<noteq> split rcd '':'' ! 3 then
         (add_message (''Two matches found for '' @ sw @ '' version '' @ version u1
                        @ '' on '' @ tag) u1)
           \<lparr>version := [], version_check_done := True\<rparr>
       else
         process_records env sw tag rest True (split rcd '':'' ! 3)
           (add_message (''Found new version '' @ split rcd '':'' ! 2 @ '' with hash ''
                          @ split rcd '':'' ! 3)
              (u1\<lparr>version := split rcd '':'' ! 2\<rparr>)))"
    using s(1,4) s(2) [symmetric] s(3) [symmetric] by (simp add: Let_def u1_def)
  show ?thesis
    unfolding unfold using u1
    by (auto simp: add_message_fields add_message_def emit_def)
qed

lemma process_records_refines:
  "found \<or> version u = [] \<Longrightarrow>
   selected (foldl (keep_best (vercmp env)) (Some (if found then Some (version u, hash) else None))
              (survivors sw tag recs))
     (expected_hash u) (process_records env sw tag recs found hash u)
   \<and> version_check_done (process_records env sw tag recs found hash u)"
proof (induction recs arbitrary: found hash u)
  case Nil
  then show ?case by (auto simp: survivors_def emit_def selected_def)
next
  case (Cons rcd rest)
  show ?case
  proof (cases "survives sw tag rcd")
    case False
    from process_records_skip [OF False, of env rest found hash u]
    obtain m where m: "process_records env sw tag (rcd # rest) found hash u
                = process_records env sw tag rest found hash m"
      "version m = version u" "expected_hash m = expected_hash u"
      by blast
    have "found \<or> version m = []" using Cons.prems by (simp add: m)
    from Cons.IH [OF this, where hash = hash, unfolded m(2) m(3)] show ?thesis
      using False by (simp add: survivors_Cons m(1) del: process_records.simps)
  next
    case True
    define v where "v = split rcd '':'' ! 2"
    define h where "h = split rcd '':'' ! 3"
    note surv = process_records_survivor [OF True, where found = found and env = env and u = u
        and hash = hash and rest = rest, folded v_def h_def]
    have S: "survivors sw tag (rcd # rest) = (v, h) # survivors sw tag rest"
      using True by (simp add: survivors_Cons v_def h_def)
    consider (skip) "found" "vercmp env (version u) v > 0"
      | (abort) "found" "\<not> vercmp env (version u) v > 0" "vercmp env (version u) v = 0" "hash \<noteq> h"
      | (take) "\<not> (found \<and> vercmp env (version u) v > 0)"
               "\<not> (found \<and> vercmp env (version u) v = 0 \<and> hash \<noteq> h)"
      by blast
    then show ?thesis
    proof cases
      case skip
      with surv obtain m where m: "process_records env sw tag (rcd # rest) found hash u
                = process_records env sw tag rest found hash m"
        "version m = version u" "expected_hash m = expected_hash u"
        by blast
      have k: "keep_best (vercmp env) (Some (Some (version u, hash))) (v, h)
              = Some (Some (version u, hash))"
        using skip by (simp add: keep_best_def)
      have "found \<or> version m = []" using skip(1) by simp
      from Cons.IH [OF this, where hash = hash, unfolded m(2) m(3)] show ?thesis
        using skip(1) m(1) by (simp add: S k del: process_records.simps)
    next
      case abort
      have "keep_best (vercmp env) (Some (Some (version u, hash))) (v, h) = None"
        using abort by (simp add: keep_best_def)
      then show ?thesis
        using surv abort
        by (simp add: S foldl_keep_best_None selected_def del: process_records.simps)
    next
      case take
      with surv obtain m where m: "process_records env sw tag (rcd # rest) found hash u
                = process_records env sw tag rest True h m"
        "version m = v" "expected_hash m = expected_hash u"
        by blast
      have k: "keep_best (vercmp env) (Some (if found then Some (version u, hash) else None)) (v, h)
              = Some (Some (v, h))"
        using take by (auto simp: keep_best_def)
      have "True \<or> version m = []" by simp
      from Cons.IH [OF this, where hash = h, unfolded m(2) m(3)] show ?thesis
        by (simp add: S m(1) k del: process_records.simps)
    qed
  qed
qed

lemma process_version_refines:
  "selected (foldl (keep_best (vercmp env)) (Some None) (survivors sw tag recs))
     (expected_hash u) (process_version env sw tag recs u)
   \<and> version_check_done (process_version env sw tag recs u)"
  using process_records_refines [of False
      "emit (versionChanged []) (u\<lparr>version_check_done := False, version := []\<rparr>)"
      env "[]" sw tag recs]
  by (simp add: process_version_def emit_def)

lemma comparator_on_iff:
  "comparator_on cmp vs \<longleftrightarrow>
     (\<forall>a \<in> set vs. \<forall>b \<in> set vs.
        ((0 < cmp a b) = (cmp b a < 0)) \<and> ((cmp a b = 0) = (cmp b a = 0))
        \<and> (\<forall>c \<in> set vs. cmp a b \<le> 0 \<and> cmp b c \<le> 0 \<longrightarrow> cmp a c \<le> 0))"
  by (simp add: comparator_on_def list_all_iff)

lemma comparator_on_total:
  "comparator_on cmp vs \<Longrightarrow> a \<in> set vs \<Longrightarrow> b \<in> set vs \<Longrightarrow> cmp a b \<le> 0 \<or> cmp b a \<le> 0"
  unfolding comparator_on_iff by (metis less_le not_le)

lemma comparator_on_trans:
  "comparator_on cmp vs \<Longrightarrow> a \<in> set vs \<Longrightarrow> b \<in> set vs \<Longrightarrow> c \<in> set vs \<Longrightarrow>
   cmp a b \<le> 0 \<Longrightarrow> cmp b c \<le> 0 \<Longrightarrow> cmp a c \<le> 0"
  unfolding comparator_on_iff by blast

lemma comparator_on_pos:
  "comparator_on cmp vs \<Longrightarrow> a \<in> set vs \<Longrightarrow> b \<in> set vs \<Longrightarrow> (0 < cmp a b) = (\<not> cmp a b \<le> 0)"
  by auto

lemma comparator_on_zero:
  "comparator_on cmp vs \<Longrightarrow> a \<in> set vs \<Longrightarrow> b \<in> set vs \<Longrightarrow>
   (cmp a b = 0) = (cmp a b \<le> 0 \<and> cmp b a \<le> 0)"
  unfolding comparator_on_iff by (metis less_le not_le order_refl)

lemma comparator_on_nonneg:
  "comparator_on cmp vs \<Longrightarrow> a \<in> set vs \<Longrightarrow> b \<in> set vs \<Longrightarrow> (0 \<le> cmp a b) = (cmp b a \<le> 0)"
  unfolding comparator_on_iff by (metis less_le not_le order_refl)

lemma comparator_on_subset:
  "comparator_on cmp vs \<Longrightarrow> set ws \<subseteq> set vs \<Longrightarrow> comparator_on cmp ws"
  unfolding comparator_on_iff by (meson subsetD)

lemma ambiguous_iff:
  "ambiguous cmp S \<longleftrightarrow>
     (\<exists>j < length S. (\<exists>i < j. cmp (fst (S ! i)) (fst (S ! j)) = 0 \<and> snd (S ! i) \<noteq> snd (S ! j))
                    \<and> (\<forall>i < j. cmp (fst (S ! i)) (fst (S ! j)) \<le> 0))"
  by (simp add: ambiguous_def ambiguous_at_def list_ex_iff list_all_iff Bex_def Ball_def)

lemma ambiguous_snoc:
  "ambiguous cmp (S @ [x]) \<longleftrightarrow>
     ambiguous cmp S
     \<or> ((\<exists>y \<in> set S. cmp (fst y) (fst x) = 0 \<and> snd y \<noteq> snd x)
        \<and> (\<forall>y \<in> set S. cmp (fst y) (fst x) \<le> 0))"
proof -
  have old: "(\<exists>j < length S. (\<exists>i < j. cmp (fst ((S @ [x]) ! i)) (fst ((S @ [x]) ! j)) = 0
                                  \<and> snd ((S @ [x]) ! i) \<noteq> snd ((S @ [x]) ! j))
                    \<and> (\<forall>i < j. cmp (fst ((S @ [x]) ! i)) (fst ((S @ [x]) ! j)) \<le> 0))
             \<longleftrightarrow> ambiguous cmp S"
    unfolding ambiguous_iff by (rule ex_cong) (auto simp: nth_append)
  have new: "((\<exists>i < length S. cmp (fst ((S @ [x]) ! i)) (fst ((S @ [x]) ! length S)) = 0
                                  \<and> snd ((S @ [x]) ! i) \<noteq> snd ((S @ [x]) ! length S))
                    \<and> (\<forall>i < length S. cmp (fst ((S @ [x]) ! i)) (fst ((S @ [x]) ! length S)) \<le> 0))
             \<longleftrightarrow> ((\<exists>y \<in> set S. cmp (fst y) (fst x) = 0 \<and> snd y \<noteq> snd x)
                  \<and> (\<forall>y \<in> set S. cmp (fst y) (fst x) \<le> 0))"
  proof -
    have "(\<exists>y \<in> set S. cmp (fst y) (fst x) = 0 \<and> snd y \<noteq> snd x)
            \<longleftrightarrow> (\<exists>i < length S. cmp (fst (S ! i)) (fst x) = 0 \<and> snd (S ! i) \<noteq> snd x)"
      by (metis in_set_conv_nth)
    moreover have "(\<forall>y \<in> set S. cmp (fst y) (fst x) \<le> 0)
            \<longleftrightarrow> (\<forall>i < length S. cmp (fst (S ! i)) (fst x) \<le> 0)"
      by (simp add: all_set_conv_all_nth)
    ultimately show ?thesis by (auto simp: nth_append)
  qed
  have "ambiguous cmp (S @ [x]) \<longleftrightarrow>
      (\<exists>j < Suc (length S). (\<exists>i < j. cmp (fst ((S @ [x]) ! i)) (fst ((S @ [x]) ! j)) = 0
                                  \<and> snd ((S @ [x]) ! i) \<noteq> snd ((S @ [x]) ! j))
                    \<and> (\<forall>i < j. cmp (fst ((S @ [x]) ! i)) (fst ((S @ [x]) ! j)) \<le> 0))"
    by (simp add: ambiguous_iff)
  also have "\<dots> \<longleftrightarrow> ambiguous cmp S
     \<or> ((\<exists>y \<in> set S. cmp (fst y) (fst x) = 0 \<and> snd y \<noteq> snd x)
        \<and> (\<forall>y \<in> set S. cmp (fst y) (fst x) \<le> 0))"
    unfolding less_Suc_eq ex_disj_distrib conj_disj_distribR
    using old new by simp
  finally show ?thesis .
qed

lemma keep_best_simps:
  "keep_best cmp None x = None"
  "keep_best cmp (Some None) x = Some (Some x)"
  "keep_best cmp (Some (Some b)) x =
     (if cmp (fst b) (fst x) > 0 then Some (Some b)
      else if cmp (fst b) (fst x) = 0 \<and> snd b \<noteq> snd x then None
      else Some (Some x))"
  by (simp_all add: keep_best_def)

lemma keep_best_characterised:
  "comparator_on cmp (map fst S) \<Longrightarrow>
   (foldl (keep_best cmp) (Some None) S = None \<longleftrightarrow> ambiguous cmp S)
   \<and> (foldl (keep_best cmp) (Some None) S = Some None \<longleftrightarrow> S = [])
   \<and> (\<forall>b. foldl (keep_best cmp) (Some None) S = Some (Some b) \<longrightarrow> best_of cmp S b)"
proof (induction S rule: rev_induct)
  case Nil
  show ?case by (simp add: ambiguous_def)
next
  case (snoc x S)
  let ?V = "map fst (S @ [x])"
  note C = snoc.prems
  have CS: "comparator_on cmp (map fst S)"
    by (rule comparator_on_subset [OF C]) auto
  note IH = snoc.IH [OF CS]
  have xV: "fst x \<in> set ?V" by simp
  have SV: "fst y \<in> set ?V" if "y \<in> set S" for y using that by simp
  define le where "le a b \<longleftrightarrow> cmp a b \<le> 0" for a b
  have total: "le a b \<or> le b a" if "a \<in> set ?V" "b \<in> set ?V" for a b
    using comparator_on_total [OF C that] by (simp add: le_def)
  have trans: "le a c" if "a \<in> set ?V" "b \<in> set ?V" "c \<in> set ?V" "le a b" "le b c" for a b c
    using comparator_on_trans [OF C that(1-3)] that(4,5) by (simp add: le_def)
  have pos: "(0 < cmp a b) = (\<not> le a b)" for a b by (auto simp: le_def)
  have zero: "(cmp a b = 0) = (le a b \<and> le b a)" if "a \<in> set ?V" "b \<in> set ?V" for a b
    using comparator_on_zero [OF C that] by (simp add: le_def)
  have nonneg: "(0 \<le> cmp a b) = le b a" if "a \<in> set ?V" "b \<in> set ?V" for a b
    using comparator_on_nonneg [OF C that] by (simp add: le_def)
  have best: "best_of cmp T b \<longleftrightarrow>
      b \<in> set T \<and> (\<forall>y \<in> set T. le (fst y) (fst b) \<and> (le (fst b) (fst y) \<longrightarrow> snd y = snd b))"
    if "set T \<subseteq> set (S @ [x])" for T b
  proof (cases "b \<in> set T")
    case False
    then show ?thesis by (simp add: best_of_def)
  next
    case True
    have V: "fst y \<in> set ?V" if "y \<in> set T" for y
      using that \<open>set T \<subseteq> set (S @ [x])\<close> by auto
    have r1: "(0 \<le> cmp (fst b) (fst y)) = le (fst y) (fst b)" if "y \<in> set T" for y
      using nonneg [OF V [OF True] V [OF that]] .
    have r2: "(cmp (fst b) (fst y) = 0) = (le (fst b) (fst y) \<and> le (fst y) (fst b))"
      if "y \<in> set T" for y
      using zero [OF V [OF True] V [OF that]] .
    have "best_of cmp T b \<longleftrightarrow>
            (\<forall>y \<in> set T. 0 \<le> cmp (fst b) (fst y)
                            \<and> (cmp (fst b) (fst y) = 0 \<longrightarrow> snd y = snd b))"
      using True by (simp add: best_of_def list_all_iff)
    also have "\<dots> \<longleftrightarrow>
            (\<forall>y \<in> set T. le (fst y) (fst b) \<and> (le (fst b) (fst y) \<longrightarrow> snd y = snd b))"
      by (rule ball_cong [OF refl]) (auto simp only: r1 r2)
    finally show ?thesis using True by simp
  qed
  have amb: "ambiguous cmp (S @ [x]) \<longleftrightarrow>
     ambiguous cmp S
     \<or> ((\<exists>y \<in> set S. le (fst y) (fst x) \<and> le (fst x) (fst y) \<and> snd y \<noteq> snd x)
        \<and> (\<forall>y \<in> set S. le (fst y) (fst x)))"
    unfolding ambiguous_snoc using zero [OF SV xV] by (auto simp: le_def)
  have bestS: "best_of cmp (S @ [x]) z \<longleftrightarrow>
      (z \<in> set S \<or> z = x)
      \<and> (\<forall>y \<in> set S. le (fst y) (fst z) \<and> (le (fst z) (fst y) \<longrightarrow> snd y = snd z))
      \<and> le (fst x) (fst z) \<and> (le (fst z) (fst x) \<longrightarrow> snd x = snd z)" for z
    using best [of "S @ [x]" z] by (simp add: ball_Un) blast
  define acc0 where "acc0 = foldl (keep_best cmp) (Some None) S"
  have step: "foldl (keep_best cmp) (Some None) (S @ [x]) = keep_best cmp acc0 x"
    by (simp add: acc0_def)
  note IH' = IH [folded acc0_def]
  show ?case
    unfolding step
  proof (cases acc0)
    case None
    then have "ambiguous cmp S" using IH' by simp
    then show "(keep_best cmp acc0 x = None \<longleftrightarrow> ambiguous cmp (S @ [x]))
      \<and> (keep_best cmp acc0 x = Some None \<longleftrightarrow> S @ [x] = [])
      \<and> (\<forall>b. keep_best cmp acc0 x = Some (Some b) \<longrightarrow> best_of cmp (S @ [x]) b)"
      by (simp add: None keep_best_simps amb)
  next
    case (Some acc)
    show "(keep_best cmp acc0 x = None \<longleftrightarrow> ambiguous cmp (S @ [x]))
      \<and> (keep_best cmp acc0 x = Some None \<longleftrightarrow> S @ [x] = [])
      \<and> (\<forall>b. keep_best cmp acc0 x = Some (Some b) \<longrightarrow> best_of cmp (S @ [x]) b)"
    proof (cases acc)
      case None
      then have "S = []" using IH' Some by simp
      then show ?thesis
        using total [OF xV xV]
        by (simp add: Some None keep_best_simps ambiguous_iff best [of "[x]"])
    next
      case (Some b)
      have acc0: "acc0 = Some (Some b)" using \<open>acc0 = Some acc\<close> Some by simp
      have b: "b \<in> set S" "\<forall>y \<in> set S. le (fst y) (fst b) \<and> (le (fst b) (fst y) \<longrightarrow> snd y = snd b)"
        using IH' acc0 best [of S b] by auto
      have namb: "\<not> ambiguous cmp S" "S \<noteq> []"
        using IH' acc0 by auto
      have bV: "fst b \<in> set ?V" using b(1) by simp
      have res: "keep_best cmp acc0 x =
          (if \<not> le (fst b) (fst x) then Some (Some b)
           else if le (fst x) (fst b) \<and> snd b \<noteq> snd x then None
           else Some (Some x))"
        using zero [OF bV xV] by (simp add: acc0 keep_best_simps pos)
      consider (keep) "\<not> le (fst b) (fst x)"
        | (abort) "le (fst b) (fst x)" "le (fst x) (fst b)" "snd b \<noteq> snd x"
        | (take) "le (fst b) (fst x)" "\<not> (le (fst x) (fst b) \<and> snd b \<noteq> snd x)"
        by blast
      then show ?thesis
      proof cases
        case keep
        have "le (fst x) (fst b)" using total [OF bV xV] keep by blast
        then have "best_of cmp (S @ [x]) b"
          unfolding bestS using b keep by blast
        moreover have "\<not> ambiguous cmp (S @ [x])"
          unfolding amb using namb(1) b(1) keep by blast
        ultimately show ?thesis using keep by (simp add: res)
      next
        case abort
        have "\<forall>y \<in> set S. le (fst y) (fst x)"
          using b(2) abort(1) trans [OF SV bV xV] by blast
        then have "ambiguous cmp (S @ [x])"
          unfolding amb using b(1) abort by blast
        then show ?thesis using abort by (simp add: res)
      next
        case take
        have up: "le (fst y) (fst x)" if "y \<in> set S" for y
          using b(2) take(1) trans [OF SV [OF that] bV xV] that by blast
        have same: "snd y = snd x" if "y \<in> set S" "le (fst x) (fst y)" for y
        proof -
          have "le (fst b) (fst y)" using trans [OF bV xV SV [OF that(1)]] take(1) that(2) by blast
          then have "snd y = snd b" using b(2) that(1) by blast
          moreover have "le (fst x) (fst b)"
            using trans [OF xV SV [OF that(1)] bV] that b(2) by blast
          ultimately show ?thesis using take(2) by simp
        qed
        have "best_of cmp (S @ [x]) x"
          unfolding bestS using up same total [OF xV xV] by blast
        moreover have "\<not> ambiguous cmp (S @ [x])"
          unfolding amb using namb(1) same by blast
        ultimately show ?thesis using take by (auto simp: res)
      qed
    qed
  qed
qed

text \<open>
  C5, counterexample: the records of version 0.18.1.0 with two different hashes both
  survive, but they come after a record of version 0.18.2.0. The selection does not
  abort: it publishes version 0.18.2.0 with the hash of that record.
\<close>

theorem lower_versions_do_not_abort:
  "survivors ''monero'' ''linux-x64'' [record_c, record_a, record_b] =
     [(''0.18.2.0'', ''0123456789abcdef0123456789abcdef0123456789abcdef0123456789abcdef''),
      (''0.18.1.0'', ''00112233445566778899aabbccddeeff00112233445566778899aabbccddeeff''),
      (''0.18.1.0'', ''ffeeddccbbaa99887766554433221100ffeeddccbbaa99887766554433221100'')]
   \<and> vercmp offline ''0.18.1.0'' ''0.18.1.0'' = 0
   \<and> version (process_version offline ''monero'' ''linux-x64'' [record_c, record_a, record_b]
                (Updater_init ''linux-x64'')) = ''0.18.2.0''
   \<and> expected_hash (process_version offline ''monero'' ''linux-x64'' [record_c, record_a, record_b]
                (Updater_init ''linux-x64''))
       = ''0123456789abcdef0123456789abcdef0123456789abcdef0123456789abcdef''"
  by code_simp

lemma process_records_state:
  "state (process_records env sw tag recs found hash u) = state u"
  by (induction env sw tag recs found hash u rule: process_records.induct)
     (simp_all add: Let_def add_message_def emit_def)

lemma process_version_state: "state (process_version env sw tag recs u) = state u"
  by (simp add: process_version_def process_records_state emit_def)

text \<open>
  C5, amended: let vercmp flip its sign when its arguments are swapped and be transitive
  on the versions of the surviving records. If some surviving record has the version of
  an earlier surviving record with a different hash, and no surviving record before it
  has a higher version, the selection aborts: version is published empty and
  expected_hash is left alone. The same holds when no record survives. Otherwise the
  version published is that of a surviving record which no surviving record exceeds and
  with which every surviving record of equal version shares the hash, and expected_hash
  is its hash unless its version is the empty string. In every case version_check_done is
  set, and when the version is empty the switch of the worker, in StateCheckVersion, picks
  StateNoUpdateInfoFound.
\<close>

theorem version_selection:
  assumes "comparator_on (vercmp env) (map fst (survivors sw tag recs))"
  shows "(ambiguous (vercmp env) (survivors sw tag recs) \<longrightarrow>
            version (process_version env sw tag recs u) = []
            \<and> expected_hash (process_version env sw tag recs u) = expected_hash u)
       \<and> (survivors sw tag recs = [] \<longrightarrow>
            version (process_version env sw tag recs u) = []
            \<and> expected_hash (process_version env sw tag recs u) = expected_hash u)
       \<and> (\<not> ambiguous (vercmp env) (survivors sw tag recs) \<and> survivors sw tag recs \<noteq> [] \<longrightarrow>
            (\<exists>b. best_of (vercmp env) (survivors sw tag recs) b
                 \<and> version (process_version env sw tag recs u) = fst b
                 \<and> expected_hash (process_version env sw tag recs u)
                     = (if fst b = [] then expected_hash u else snd b)))
       \<and> version_check_done (process_version env sw tag recs u)
       \<and> (state u = StateCheckVersion \<and> version (process_version env sw tag recs u) = [] \<longrightarrow>
            next_state (next_state_switch env (process_version env sw tag recs u))
              = StateNoUpdateInfoFound)"
proof -
  define res where "res = foldl (keep_best (vercmp env)) (Some None) (survivors sw tag recs)"
  have sel: "selected res (expected_hash u) (process_version env sw tag recs u)"
    and dn: "version_check_done (process_version env sw tag recs u)"
    using process_version_refines [of env sw tag recs u] by (simp_all add: res_def)
  note ch = keep_best_characterised [OF assms, folded res_def]
  have fsm: "state u = StateCheckVersion \<and> version (process_version env sw tag recs u) = [] \<longrightarrow>
            next_state (next_state_switch env (process_version env sw tag recs u))
              = StateNoUpdateInfoFound"
    using dn by (simp add: next_state_switch_def process_version_state set_state_def)
  have main: "(ambiguous (vercmp env) (survivors sw tag recs) \<longrightarrow>
            version (process_version env sw tag recs u) = []
            \<and> expected_hash (process_version env sw tag recs u) = expected_hash u)
       \<and> (survivors sw tag recs = [] \<longrightarrow>
            version (process_version env sw tag recs u) = []
            \<and> expected_hash (process_version env sw tag recs u) = expected_hash u)
       \<and> (\<not> ambiguous (vercmp env) (survivors sw tag recs) \<and> survivors sw tag recs \<noteq> [] \<longrightarrow>
            (\<exists>b. best_of (vercmp env) (survivors sw tag recs) b
                 \<and> version (process_version env sw tag recs u) = fst b
                 \<and> expected_hash (process_version env sw tag recs u)
                     = (if fst b = [] then expected_hash u else snd b)))"
  proof (cases res)
    case None
    then have "ambiguous (vercmp env) (survivors sw tag recs)" using ch by simp
    moreover have "survivors sw tag recs \<noteq> []" using ch None by auto
    ultimately show ?thesis using sel by (simp add: None selected_def)
  next
    case (Some acc)
    then have na: "\<not> ambiguous (vercmp env) (survivors sw tag recs)" using ch by simp
    show ?thesis
    proof (cases acc)
      case None
      then have "survivors sw tag recs = []" using ch Some by simp
      then show ?thesis using sel na by (simp add: Some None selected_def)
    next
      case (Some b)
      have r: "res = Some (Some b)" using \<open>res = Some acc\<close> Some by simp
      then have "best_of (vercmp env) (survivors sw tag recs) b" using ch by simp
      moreover have "version (process_version env sw tag recs u) = fst b"
        "expected_hash (process_version env sw tag recs u)
           = (if fst b = [] then expected_hash u else snd b)"
        using sel by (simp_all add: r selected_def)
      ultimately have "\<exists>b. best_of (vercmp env) (survivors sw tag recs) b
                 \<and> version (process_version env sw tag recs u) = fst b
                 \<and> expected_hash (process_version env sw tag recs u)
                     = (if fst b = [] then expected_hash u else snd b)"
        by blast
      moreover have "survivors sw tag recs \<noteq> []" using ch r by auto
      ultimately show ?thesis using na by simp
    qed
  qed
  show ?thesis using main dn fsm by blast
qed

theorem version_selection_witness:
  "version (process_version offline ''monero'' ''linux-x64'' [record_a, record_b]
              (Updater_init ''linux-x64'')) = []
   \<and> version (process_version offline ''monero'' ''linux-x64'' [record_a, record_c]
              (Updater_init ''linux-x64'')) = ''0.18.2.0''"
proof -
  have c1: "comparator_on (vercmp offline)
              (map fst (survivors ''monero'' ''linux-x64'' [record_a, record_b]))"
    by code_simp
  have a1: "ambiguous (vercmp offline) (survivors ''monero'' ''linux-x64'' [record_a, record_b])"
    by code_simp
  have c2: "comparator_on (vercmp offline)
              (map fst (survivors ''monero'' ''linux-x64'' [record_a, record_c]))"
    by code_simp
  have a2: "\<not> ambiguous (vercmp offline) (survivors ''monero'' ''linux-x64'' [record_a, record_c])"
    "survivors ''monero'' ''linux-x64'' [record_a, record_c] \<noteq> []"
    by code_simp+
  have b2: "best_of (vercmp offline) (survivors ''monero'' ''linux-x64'' [record_a, record_c]) b
            \<Longrightarrow> fst b = ''0.18.2.0''" for b
  proof -
    assume b: "best_of (vercmp offline) (survivors ''monero'' ''linux-x64'' [record_a, record_c]) b"
    have S: "survivors ''monero'' ''linux-x64'' [record_a, record_c] =
       [(''0.18.1.0'', ''00112233445566778899aabbccddeeff00112233445566778899aabbccddeeff''),
        (''0.18.2.0'', ''0123456789abcdef0123456789abcdef0123456789abcdef0123456789abcdef'')]"
      by code_simp
    have lt: "\<not> 0 \<le> vercmp offline ''0.18.1.0'' ''0.18.2.0''" by code_simp
    show ?thesis using b lt unfolding S best_of_def by auto
  qed
  from version_selection [OF c1, of "Updater_init ''linux-x64''"] a1
    version_selection [OF c2, of "Updater_init ''linux-x64''"] a2 b2
  show ?thesis by auto
qed

end
